theory Spec2Isabelle
  imports Complex_Main "HOL-Library.Sublist"
begin

section \<open>JavaScript strings and numbers\<close>

text \<open>
  Texts are modelled as \<^typ>\<open>string\<close>: a list of code units, each below 256, so a text
  of the model is a JavaScript string over the Latin-1 range and \<open>length\<close> is its
  \<open>.length\<close>. The helpers below are the library functions the engine calls, restricted
  to that range. Numbers the engine computes are small integers and quotients of two of
  them, which it rounds at once; they are modelled exactly (\<^typ>\<open>int\<close>, \<^typ>\<open>nat\<close>,
  \<^typ>\<open>rat\<close>), not as doubles.
\<close>

definition code_unit :: "char \<Rightarrow> nat" where
  "code_unit c = of_char c"

definition is_ws :: "char \<Rightarrow> bool" where
  \<comment> \<open>the characters below 256 matched by \<open>\s\<close> and removed by \<open>trim\<close>:
      TAB, LF, VT, FF, CR, SP, NBSP\<close>
  "is_ws c = (code_unit c \<in> {9, 10, 11, 12, 13, 32, 160})"

definition trim :: "string \<Rightarrow> string" where
  "trim s = rev (dropWhile is_ws (rev (dropWhile is_ws s)))"

fun split_from :: "bool \<Rightarrow> string \<Rightarrow> string \<Rightarrow> string list" where
  \<comment> \<open>\<open>split_from inrun cur s\<close>: \<open>cur\<close> is the current word, reversed; \<open>inrun\<close> says that
      the previous character belonged to a separator run\<close>
  "split_from inrun cur [] = [rev cur]"
| "split_from inrun cur (c # cs) =
     (if is_ws c then
        (if inrun then split_from True cur cs else rev cur # split_from True [] cs)
      else split_from False (c # cur) cs)"

definition split_ws :: "string \<Rightarrow> string list" where
  \<comment> \<open>\<open>s.split(/\s+/)\<close>: never empty, \<open>''''.split(/\s+/)\<close> is \<open>['''']\<close>\<close>
  "split_ws s = split_from False [] s"

definition lower_char :: "char \<Rightarrow> char" where
  "lower_char c =
     (let n = code_unit c
      in if (65 \<le> n \<and> n \<le> 90) \<or> (192 \<le> n \<and> n \<le> 214) \<or> (216 \<le> n \<and> n \<le> 222)
         then char_of (n + 32) else c)"

definition toLowerCase :: "string \<Rightarrow> string" where
  "toLowerCase s = map lower_char s"

definition upper_fixed :: "char \<Rightarrow> bool" where
  \<comment> \<open>\<open>c === c.toUpperCase()\<close> for a single code unit below 256: false for a-z, the micro
      sign, sharp s, and the accented lower-case letters\<close>
  "upper_fixed c =
     (let n = code_unit c
      in \<not> ((97 \<le> n \<and> n \<le> 122) \<or> n = 181 \<or> (223 \<le> n \<and> n \<le> 246) \<or> (248 \<le> n \<and> n \<le> 255)))"

definition is_a_z :: "char \<Rightarrow> bool" where
  "is_a_z c = (97 \<le> code_unit c \<and> code_unit c \<le> 122)"

definition strip_non_a_z :: "string \<Rightarrow> string" where
  \<comment> \<open>\<open>.replace(/[^a-z]/g, '''')\<close>\<close>
  "strip_non_a_z s = filter is_a_z s"

definition endsWith :: "string \<Rightarrow> string \<Rightarrow> bool" where
  "endsWith s t = suffix t s"

fun str_includes :: "string \<Rightarrow> string \<Rightarrow> bool" where
  "str_includes [] t = (t = [])"
| "str_includes (c # cs) t = (prefix t (c # cs) \<or> str_includes cs t)"

definition join :: "string \<Rightarrow> string list \<Rightarrow> string" where
  \<comment> \<open>\<open>xs.join(sep)\<close>\<close>
  "join sep xs = (case xs of [] \<Rightarrow> [] | y # ys \<Rightarrow> y @ concat (map (\<lambda>z. sep @ z) ys))"

definition digit_char :: "nat \<Rightarrow> char" where
  "digit_char d = char_of (48 + d)"

fun string_of_nat :: "nat \<Rightarrow> string" where
  "string_of_nat n =
     (if n < 10 then [digit_char n] else string_of_nat (n div 10) @ [digit_char (n mod 10)])"

declare string_of_nat.simps [simp del]

definition string_of_int :: "int \<Rightarrow> string" where
  "string_of_int i = (if i < 0 then ''-'' @ string_of_nat (nat (- i)) else string_of_nat (nat i))"

definition Math_round :: "rat \<Rightarrow> int" where
  \<comment> \<open>\<open>Math.round\<close>: the nearest integer, a half rounding up\<close>
  "Math_round x = \<lfloor>x + 1 / 2\<rfloor>"

definition Math_ceil :: "rat \<Rightarrow> int" where
  "Math_ceil x = \<lceil>x\<rceil>"

section \<open>Pattern classifier\<close>

datatype GrammarPattern = VerbImperative | VerbGerund | NounPhrase | Sentence | Unknown

fun pattern_name :: "GrammarPattern \<Rightarrow> string" where
  "pattern_name VerbImperative = ''verb-imperative''"
| "pattern_name VerbGerund = ''verb-gerund''"
| "pattern_name NounPhrase = ''noun-phrase''"
| "pattern_name Sentence = ''sentence''"
| "pattern_name Unknown = ''unknown''"

definition IMPERATIVE_VERBS :: "string list" where
  "IMPERATIVE_VERBS =
    [''use'', ''create'', ''add'', ''remove'', ''update'', ''check'', ''ensure'', ''make'',
     ''set'', ''get'', ''run'', ''build'', ''test'', ''deploy'', ''configure'', ''install'',
     ''enable'', ''disable'', ''implement'', ''define'', ''write'', ''read'', ''delete'',
     ''move'', ''copy'', ''start'', ''stop'', ''open'', ''close'', ''send'', ''receive'',
     ''validate'', ''verify'', ''confirm'', ''select'', ''choose'', ''avoid'', ''include'',
     ''exclude'', ''maintain'', ''keep'', ''place'', ''put'', ''apply'', ''follow'',
     ''consider'', ''review'', ''analyze'', ''optimize'', ''limit'', ''maximize'',
     ''minimize'', ''target'', ''focus'', ''provide'', ''support'', ''handle'', ''process'',
     ''format'', ''parse'', ''convert'', ''transform'', ''organize'', ''structure'',
     ''break'', ''split'', ''merge'', ''combine'', ''group'', ''separate'', ''allow'',
     ''prevent'', ''require'', ''expect'', ''return'', ''call'', ''invoke'', ''execute'',
     ''perform'', ''complete'', ''finish'', ''begin'', ''continue'', ''repeat'', ''iterate'',
     ''loop'', ''track'', ''monitor'', ''log'', ''record'', ''store'', ''save'', ''load'',
     ''fetch'', ''retrieve'', ''display'', ''show'', ''hide'', ''render'', ''print'',
     ''export'', ''import'']"

definition nonGerunds :: "string list" where
  "nonGerunds =
    [''king'', ''ring'', ''thing'', ''string'', ''spring'', ''swing'', ''bring'', ''sing'',
     ''bling'', ''fling'', ''sling'', ''sting'', ''wing'', ''cling'', ''wring'',
     ''anything'', ''everything'', ''nothing'', ''something'']"

definition determiners :: "string list" where
  "determiners = [''the'', ''a'', ''an'', ''this'', ''that'', ''each'', ''every'', ''all'', ''some'']"

definition copulas :: "string list" where
  "copulas = ['' is '', '' are '', '' was '', '' were '', '' has '', '' have '', '' will '', '' can '']"

definition first_word :: "string \<Rightarrow> string option" where
  \<comment> \<open>\<open>words[0].toLowerCase().replace(/[^a-z]/g, '''')\<close> for
      \<open>words = text.trim().split(/\s+/)\<close>; \<open>None\<close> when \<open>words\<close> is empty\<close>
  "first_word text =
     (case split_ws (trim text) of
        [] \<Rightarrow> None
      | w # _ \<Rightarrow> Some (strip_non_a_z (toLowerCase w)))"

definition looks_like_sentence :: "string \<Rightarrow> bool" where
  "looks_like_sentence text =
     (let textLower = toLowerCase text
      in str_includes textLower '' is '' \<or> str_includes textLower '' are '' \<or>
         str_includes textLower '' was '' \<or> str_includes textLower '' were '' \<or>
         str_includes textLower '' has '' \<or> str_includes textLower '' have '' \<or>
         str_includes textLower '' will '' \<or> str_includes textLower '' can '')"

definition detectGrammarPattern :: "string \<Rightarrow> GrammarPattern" where
  "detectGrammarPattern text =
     (case first_word text of
        None \<Rightarrow> Unknown
      | Some firstWord \<Rightarrow>
          if firstWord \<in> set IMPERATIVE_VERBS then VerbImperative
          else if endsWith firstWord ''ing'' \<and> length firstWord > 4
                  \<and> firstWord \<notin> set nonGerunds then VerbGerund
          else if firstWord \<in> set determiners then NounPhrase
          else if looks_like_sentence text then Sentence
          else Unknown)"

definition detectGrammarPattern_flat :: "string \<Rightarrow> GrammarPattern" where
  \<comment> \<open>the classifier of the flat-only engine: no list of excluded \<open>-ing\<close> nouns\<close>
  "detectGrammarPattern_flat text =
     (case first_word text of
        None \<Rightarrow> Unknown
      | Some firstWord \<Rightarrow>
          if firstWord \<in> set IMPERATIVE_VERBS then VerbImperative
          else if endsWith firstWord ''ing'' \<and> length firstWord > 4 then VerbGerund
          else if firstWord \<in> set determiners then NounPhrase
          else if looks_like_sentence text then Sentence
          else Unknown)"

section \<open>Data model\<close>

text \<open>
  The interfaces of \<open>types.ts\<close>. \<open>BulletItem.text\<close> is the selector \<open>item_text\<close>,
  \<open>RuleScore.rule\<close> is \<open>score_rule\<close>; an optional field is an \<^typ>\<open>'a option\<close>.
\<close>

datatype Importance = High | Medium | Low

datatype BulletItem =
  BulletItem (item_text: string) (children: "BulletItem list option")
             (importance: "Importance option")

datatype Severity = Sev_error | Sev_warning | Sev_suggestion

record ValidationIssue =
  rule :: string
  severity :: Severity
  message :: string
  item_index :: "nat option"
  suggestion :: "string option"
  research_basis :: "string option"

record RuleScore =
  score_rule :: string
  max_points :: int
  earned_points :: int
  issues :: "ValidationIssue list"

datatype Grade = A | B | C | D | F

datatype Context = Document | Presentation | Reference

datatype ContextFit = Excellent | Good | Poor

record ValidationConfig =
  strictMode :: bool
  enableResearchCitations :: bool

record DisplayConfig =
  colorOutput :: bool

record BulletConfig =
  validation :: ValidationConfig
  display :: DisplayConfig

section \<open>Constants\<close>

definition LIST_LENGTH_MIN_ITEMS :: nat where "LIST_LENGTH_MIN_ITEMS = 3"
definition LIST_LENGTH_OPTIMAL_ITEMS :: nat where "LIST_LENGTH_OPTIMAL_ITEMS = 5"
definition LIST_LENGTH_MAX_ITEMS :: nat where "LIST_LENGTH_MAX_ITEMS = 7"
definition LIST_LENGTH_HARD_MAX_ITEMS :: nat where "LIST_LENGTH_HARD_MAX_ITEMS = 9"
definition LIST_LENGTH_POINTS :: int where "LIST_LENGTH_POINTS = 20"

definition HIERARCHY_MAX_DEPTH :: nat where "HIERARCHY_MAX_DEPTH = 2"
definition HIERARCHY_HARD_MAX_DEPTH :: nat where "HIERARCHY_HARD_MAX_DEPTH = 3"
definition HIERARCHY_POINTS :: int where "HIERARCHY_POINTS = 15"

definition LINE_LENGTH_MIN_CHARS :: nat where "LINE_LENGTH_MIN_CHARS = 40"
definition LINE_LENGTH_OPTIMAL_MAX_CHARS :: nat where "LINE_LENGTH_OPTIMAL_MAX_CHARS = 75"
definition LINE_LENGTH_HARD_MAX_CHARS :: nat where "LINE_LENGTH_HARD_MAX_CHARS = 80"
definition LINE_LENGTH_POINTS :: int where "LINE_LENGTH_POINTS = 15"

definition SERIAL_POSITION_PRIMACY_ZONE :: nat where "SERIAL_POSITION_PRIMACY_ZONE = 2"
definition SERIAL_POSITION_RECENCY_ZONE :: nat where "SERIAL_POSITION_RECENCY_ZONE = 1"
definition SERIAL_POSITION_POINTS :: int where "SERIAL_POSITION_POINTS = 15"

definition STRUCTURE_POINTS :: int where "STRUCTURE_POINTS = 20"

definition FIRST_WORDS_CRITICAL_WORD_COUNT :: nat where "FIRST_WORDS_CRITICAL_WORD_COUNT = 2"
definition FIRST_WORDS_POINTS :: int where "FIRST_WORDS_POINTS = 10"

definition FORMATTING_POINTS :: int where "FORMATTING_POINTS = 5"

definition GRADES_A :: int where "GRADES_A = 90"
definition GRADES_B :: int where "GRADES_B = 80"
definition GRADES_C :: int where "GRADES_C = 70"
definition GRADES_D :: int where "GRADES_D = 60"

definition TOTAL_POINTS :: int where
  "TOTAL_POINTS = LIST_LENGTH_POINTS + HIERARCHY_POINTS + LINE_LENGTH_POINTS
     + SERIAL_POSITION_POINTS + STRUCTURE_POINTS + FIRST_WORDS_POINTS + FORMATTING_POINTS"

definition CITE_LIST_LENGTH :: string where
  "CITE_LIST_LENGTH = ''Miller (1956), Cowan (2001): Working memory capacity 3-4 chunks; Columbia Business School: >3-4 key points decrease comprehension''"
definition CITE_HIERARCHY :: string where
  "CITE_HIERARCHY = ''Kiger (1984), Zaphiris (2000), Nielsen: 2-level structures show fastest performance; >3 levels drops comprehension substantially''"
definition CITE_LINE_LENGTH :: string where
  "CITE_LINE_LENGTH = ''Typography research: 45-75 chars optimal, 66 ideal; <40 causes excessive eye movements, >80 makes line tracking difficult''"
definition CITE_SERIAL_POSITION :: string where
  "CITE_SERIAL_POSITION = ''Ebbinghaus (1885), Murdock (1962): U-shaped retention curve; items at beginning and end recalled significantly better than middle''"
definition CITE_STRUCTURE :: string where
  "CITE_STRUCTURE = ''Frazier et al. (1984): Parallel grammatical structure enables significantly faster reading through processing facilitation''"
definition CITE_FIRST_WORDS :: string where
  "CITE_FIRST_WORDS = ''Nielsen eye-tracking: First 2 words are critical; readers fixate on initial words when deciding whether to read further''"
definition CITE_FORMATTING :: string where
  "CITE_FORMATTING = ''Usability research: Consistent punctuation/capitalization aids scanning; simple bullet symbols preferred''"

definition dq :: string where
  \<comment> \<open>a double quote inside a template literal\<close>
  "dq = [CHR 0x22]"

section \<open>Rule validators\<close>

subsection \<open>LIST_LENGTH\<close>

definition validateListLength :: "BulletItem list \<Rightarrow> RuleScore" where
  "validateListLength items =
     (let count = length items;
          (iss, points) =
            (if count > LIST_LENGTH_HARD_MAX_ITEMS then
               ([\<lparr>rule = ''LIST_LENGTH'', severity = Sev_error,
                   message = ''List has '' @ string_of_nat count @ '' items, exceeds maximum of ''
                             @ string_of_nat LIST_LENGTH_HARD_MAX_ITEMS,
                   item_index = None,
                   suggestion = Some (''Subdivide into ''
                     @ string_of_int (Math_ceil (of_nat count / of_nat LIST_LENGTH_OPTIMAL_ITEMS))
                     @ '' categorized groups of ~'' @ string_of_nat LIST_LENGTH_OPTIMAL_ITEMS
                     @ '' items each''),
                   research_basis = Some CITE_LIST_LENGTH\<rparr>], 0)
             else if count > LIST_LENGTH_MAX_ITEMS then
               ([\<lparr>rule = ''LIST_LENGTH'', severity = Sev_warning,
                   message = ''List has '' @ string_of_nat count
                             @ '' items, exceeds recommended maximum of ''
                             @ string_of_nat LIST_LENGTH_MAX_ITEMS,
                   item_index = None,
                   suggestion = Some ''Consider subdividing or removing less critical items'',
                   research_basis = Some CITE_LIST_LENGTH\<rparr>],
                max 0 (LIST_LENGTH_POINTS - 10))
             else if count < LIST_LENGTH_MIN_ITEMS then
               ([\<lparr>rule = ''LIST_LENGTH'', severity = Sev_suggestion,
                   message = ''List has only '' @ string_of_nat count
                             @ '' item(s), below minimum of ''
                             @ string_of_nat LIST_LENGTH_MIN_ITEMS,
                   item_index = None,
                   suggestion = Some (if count = 1
                     then ''Consider using prose instead of a single bullet''
                     else ''Consider adding more detail or using prose instead''),
                   research_basis = Some CITE_LIST_LENGTH\<rparr>],
                max 0 (LIST_LENGTH_POINTS - 5))
             else ([], LIST_LENGTH_POINTS))
      in \<lparr>score_rule = ''LIST_LENGTH'', max_points = LIST_LENGTH_POINTS,
          earned_points = points, issues = iss\<rparr>)"

subsection \<open>HIERARCHY\<close>

fun calculateMaxDepth :: "BulletItem list \<Rightarrow> nat \<Rightarrow> nat"
and depth_loop :: "BulletItem list \<Rightarrow> nat \<Rightarrow> nat \<Rightarrow> nat" where
  "calculateMaxDepth items currentDepth = depth_loop items currentDepth currentDepth"
| "depth_loop [] currentDepth mx = mx"
| "depth_loop (BulletItem txt ch imp # rest) currentDepth mx =
     depth_loop rest currentDepth
       (case ch of
          None \<Rightarrow> mx
        | Some cs \<Rightarrow>
            if length cs > 0 then max mx (calculateMaxDepth cs (currentDepth + 1)) else mx)"

definition validateHierarchy :: "BulletItem list \<Rightarrow> RuleScore" where
  "validateHierarchy items =
     (let maxDepth = calculateMaxDepth items 1;
          (iss, points) =
            (if maxDepth > HIERARCHY_HARD_MAX_DEPTH then
               ([\<lparr>rule = ''HIERARCHY'', severity = Sev_error,
                   message = ''Hierarchy depth of '' @ string_of_nat maxDepth
                             @ '' exceeds usable maximum of ''
                             @ string_of_nat HIERARCHY_HARD_MAX_DEPTH,
                   item_index = None,
                   suggestion = Some ''Flatten structure or use a table for complex relationships'',
                   research_basis = Some CITE_HIERARCHY\<rparr>], 0)
             else if maxDepth > HIERARCHY_MAX_DEPTH then
               ([\<lparr>rule = ''HIERARCHY'', severity = Sev_warning,
                   message = ''Hierarchy depth of '' @ string_of_nat maxDepth
                             @ '' exceeds recommended maximum of ''
                             @ string_of_nat HIERARCHY_MAX_DEPTH,
                   item_index = None,
                   suggestion = Some ''Consider flattening to 2 levels for better comprehension'',
                   research_basis = Some CITE_HIERARCHY\<rparr>],
                max 0 (HIERARCHY_POINTS - 8))
             else ([], HIERARCHY_POINTS))
      in \<lparr>score_rule = ''HIERARCHY'', max_points = HIERARCHY_POINTS,
          earned_points = points, issues = iss\<rparr>)"

subsection \<open>LINE_LENGTH\<close>

text \<open>
  The closure \<open>checkItem\<close> pushes to \<open>issues\<close> and adds to \<open>totalPenalty\<close>; the model
  passes the pair of both. \<open>line_check\<close> is the part of \<open>checkItem\<close> before it visits the
  children, \<open>checkChildren\<close> and \<open>checkItems\<close> are the two \<open>forEach\<close> loops.
\<close>

definition line_check ::
  "string \<Rightarrow> nat \<Rightarrow> ValidationIssue list \<times> nat \<Rightarrow> ValidationIssue list \<times> nat" where
  "line_check txt index st =
     (case st of (iss, totalPenalty) \<Rightarrow>
        let len = length txt
        in if len > LINE_LENGTH_HARD_MAX_CHARS then
             (iss @ [\<lparr>rule = ''LINE_LENGTH'', severity = Sev_warning,
                 message = ''Item '' @ string_of_nat (index + 1) @ '' is too long (''
                           @ string_of_nat len @ '' chars), exceeds readable maximum of ''
                           @ string_of_nat LINE_LENGTH_HARD_MAX_CHARS,
                 item_index = Some index,
                 suggestion = Some ''Break into two bullets or trim to essential information'',
                 research_basis = Some CITE_LINE_LENGTH\<rparr>], totalPenalty + 5)
           else if len > LINE_LENGTH_OPTIMAL_MAX_CHARS then
             (iss @ [\<lparr>rule = ''LINE_LENGTH'', severity = Sev_suggestion,
                 message = ''Item '' @ string_of_nat (index + 1) @ '' is slightly long (''
                           @ string_of_nat len @ '' chars), above optimal of ''
                           @ string_of_nat LINE_LENGTH_OPTIMAL_MAX_CHARS,
                 item_index = Some index,
                 suggestion = Some ''Consider trimming for easier scanning'',
                 research_basis = Some CITE_LINE_LENGTH\<rparr>], totalPenalty + 2)
           else if len < LINE_LENGTH_MIN_CHARS \<and> len > 0 then
             (iss @ [\<lparr>rule = ''LINE_LENGTH'', severity = Sev_suggestion,
                 message = ''Item '' @ string_of_nat (index + 1) @ '' is short (''
                           @ string_of_nat len @ '' chars), may appear sparse'',
                 item_index = Some index,
                 suggestion = Some ''Consider adding detail or combining with a related point'',
                 research_basis = Some CITE_LINE_LENGTH\<rparr>], totalPenalty + 1)
           else (iss, totalPenalty))"

fun checkItem ::
  "BulletItem \<Rightarrow> nat \<Rightarrow> ValidationIssue list \<times> nat \<Rightarrow> ValidationIssue list \<times> nat"
and checkChildren ::
  "BulletItem list \<Rightarrow> nat \<Rightarrow> nat \<Rightarrow> ValidationIssue list \<times> nat
     \<Rightarrow> ValidationIssue list \<times> nat" where
  "checkItem (BulletItem txt ch imp) index st =
     (case ch of
        None \<Rightarrow> line_check txt index st
      | Some cs \<Rightarrow> checkChildren cs index 0 (line_check txt index st))"
| "checkChildren [] index childIndex st = st"
| "checkChildren (child # rest) index childIndex st =
     checkChildren rest index (childIndex + 1) (checkItem child (index * 100 + childIndex) st)"

fun checkItems ::
  "BulletItem list \<Rightarrow> nat \<Rightarrow> ValidationIssue list \<times> nat \<Rightarrow> ValidationIssue list \<times> nat" where
  "checkItems [] index st = st"
| "checkItems (item # rest) index st = checkItems rest (index + 1) (checkItem item index st)"

definition validateLineLength :: "BulletItem list \<Rightarrow> RuleScore" where
  "validateLineLength items =
     (case checkItems items 0 ([], 0) of (iss, totalPenalty) \<Rightarrow>
        \<lparr>score_rule = ''LINE_LENGTH'', max_points = LINE_LENGTH_POINTS,
         earned_points = max 0 (LINE_LENGTH_POINTS - int totalPenalty), issues = iss\<rparr>)"

subsection \<open>SERIAL_POSITION\<close>

definition with_index :: "'a list \<Rightarrow> ('a \<times> nat) list" where
  \<comment> \<open>\<open>xs.map((x, index) => ({x, index}))\<close>\<close>
  "with_index xs = zip xs [0..<length xs]"

fun serial_step ::
  "nat \<Rightarrow> BulletItem \<times> nat \<Rightarrow> ValidationIssue list \<times> int \<Rightarrow> ValidationIssue list \<times> int" where
  "serial_step n (item, index) (iss, points) =
     (let isPrimacy = index < SERIAL_POSITION_PRIMACY_ZONE;
          isRecency = int index \<ge> int n - int SERIAL_POSITION_RECENCY_ZONE
      in if \<not> isPrimacy \<and> \<not> isRecency then
           (let shortText = (if length (item_text item) > 40
                             then take 40 (item_text item) @ ''...'' else item_text item)
            in (iss @ [\<lparr>rule = ''SERIAL_POSITION'', severity = Sev_warning,
                  message = ''High-importance item '' @ dq @ shortText @ dq
                            @ '' is in recall valley (position '' @ string_of_nat (index + 1)
                            @ '')'',
                  item_index = Some index,
                  suggestion = Some (''Move to position 1, 2, or '' @ string_of_nat n
                                     @ '' for better recall''),
                  research_basis = Some CITE_SERIAL_POSITION\<rparr>], points - 5))
         else (iss, points))"

definition validateSerialPosition :: "BulletItem list \<Rightarrow> RuleScore" where
  "validateSerialPosition items =
     (let hasImportance = list_ex (\<lambda>item. importance item \<noteq> None) items;
          (iss, points) =
            (if hasImportance \<and> length items > 3 then
               (let highImportanceItems =
                      filter (\<lambda>(item, index). importance item = Some High) (with_index items)
                in fold (serial_step (length items)) highImportanceItems
                     ([], SERIAL_POSITION_POINTS))
             else if length items > 4 then
               ([\<lparr>rule = ''SERIAL_POSITION'', severity = Sev_suggestion,
                   message = ''Consider placing most critical information in positions 1, 2, or ''
                             @ string_of_nat (length items),
                   item_index = None,
                   suggestion = Some (''Items in positions 3-''
                     @ string_of_int (int (length items) - 1) @ '' are in the '' @ dq
                     @ ''recall valley'' @ dq @ '' with lower retention''),
                   research_basis = Some CITE_SERIAL_POSITION\<rparr>], SERIAL_POSITION_POINTS)
             else ([], SERIAL_POSITION_POINTS))
      in \<lparr>score_rule = ''SERIAL_POSITION'', max_points = SERIAL_POSITION_POINTS,
          earned_points = max 0 points, issues = iss\<rparr>)"

subsection \<open>Most common element\<close>

text \<open>
  A JavaScript \<open>Map\<close> iterates in insertion order and \<open>set\<close> on a present key keeps the
  key's place, so the map is an association list whose keys are distinct.
\<close>

fun count_add :: "'a \<Rightarrow> ('a \<times> nat) list \<Rightarrow> ('a \<times> nat) list" where
  \<comment> \<open>\<open>counts.set(item, (counts.get(item) || 0) + 1)\<close>\<close>
  "count_add x [] = [(x, 1)]"
| "count_add x ((y, c) # rest) =
     (if x = y then (y, c + 1) # rest else (y, c) # count_add x rest)"

fun most_step :: "'a \<times> nat \<Rightarrow> nat \<times> 'a \<Rightarrow> nat \<times> 'a" where
  "most_step (item, count) (maxCount, mostCommon) =
     (if count > maxCount then (count, item) else (maxCount, mostCommon))"

definition getMostCommon :: "'a list \<Rightarrow> 'a option" where
  "getMostCommon arr =
     (case arr of
        [] \<Rightarrow> None
      | a # _ \<Rightarrow> Some (snd (fold most_step (fold count_add arr []) (0, a))))"

subsection \<open>STRUCTURE\<close>

fun structure_step ::
  "GrammarPattern option \<Rightarrow> GrammarPattern \<times> nat \<Rightarrow> ValidationIssue list \<times> int
     \<Rightarrow> ValidationIssue list \<times> int" where
  "structure_step None (pattern, index) (iss, points) = (iss, points)"
| "structure_step (Some dominantPattern) (pattern, index) (iss, points) =
     (if pattern \<noteq> Unknown \<and> pattern \<noteq> dominantPattern \<and> dominantPattern \<noteq> Unknown then
        (iss @ [\<lparr>rule = ''STRUCTURE'', severity = Sev_warning,
            message = ''Item '' @ string_of_nat (index + 1) @ '' uses '' @ dq
                      @ pattern_name pattern @ dq @ '' pattern while most items use '' @ dq
                      @ pattern_name dominantPattern @ dq,
            item_index = Some index,
            suggestion = Some (''Rewrite to match the '' @ dq @ pattern_name dominantPattern
                               @ dq @ '' pattern for consistency''),
            research_basis = Some CITE_STRUCTURE\<rparr>], points - 4)
      else (iss, points))"

definition validateStructure :: "BulletItem list \<Rightarrow> RuleScore" where
  "validateStructure items =
     (if length items < 2 then
        \<lparr>score_rule = ''STRUCTURE'', max_points = STRUCTURE_POINTS,
         earned_points = STRUCTURE_POINTS, issues = []\<rparr>
      else
        (let patterns = map (\<lambda>item. detectGrammarPattern (item_text item)) items;
             dominantPattern = getMostCommon patterns;
             (iss, points) =
               fold (structure_step dominantPattern) (with_index patterns) ([], STRUCTURE_POINTS)
         in \<lparr>score_rule = ''STRUCTURE'', max_points = STRUCTURE_POINTS,
             earned_points = max 0 points, issues = iss\<rparr>))"

subsection \<open>FIRST_WORDS\<close>

fun seen_add :: "string \<times> nat \<Rightarrow> (string \<times> nat list) list \<Rightarrow> (string \<times> nat list) list" where
  \<comment> \<open>\<open>if (!seen.has(words)) seen.set(words, []); seen.get(words).push(index)\<close>\<close>
  "seen_add (words, index) [] = [(words, [index])]"
| "seen_add (words, index) ((k, indices) # rest) =
     (if words = k then (k, indices @ [index]) # rest
      else (k, indices) # seen_add (words, index) rest)"

fun first_words_step ::
  "string \<times> nat list \<Rightarrow> ValidationIssue list \<times> int \<Rightarrow> ValidationIssue list \<times> int" where
  "first_words_step (words, indices) (iss, points) =
     (if length indices > 1 then
        (iss @ [\<lparr>rule = ''FIRST_WORDS'', severity = Sev_warning,
            message = ''Items '' @ join '', '' (map (\<lambda>i. string_of_nat (i + 1)) indices)
                      @ '' start with similar words '' @ dq @ words @ dq,
            item_index = None,
            suggestion = Some
              ''Vary the opening words to help readers quickly distinguish between items'',
            research_basis = Some CITE_FIRST_WORDS\<rparr>], points - 3)
      else (iss, points))"

definition first_words_key :: "BulletItem \<Rightarrow> string" where
  "first_words_key item =
     (let words = split_ws (trim (item_text item))
      in toLowerCase (join '' '' (take FIRST_WORDS_CRITICAL_WORD_COUNT words)))"

definition validateFirstWords :: "BulletItem list \<Rightarrow> RuleScore" where
  "validateFirstWords items =
     (let firstWords = map first_words_key items;
          seen = fold seen_add (with_index firstWords) [];
          (iss, points) = fold first_words_step seen ([], FIRST_WORDS_POINTS)
      in \<lparr>score_rule = ''FIRST_WORDS'', max_points = FIRST_WORDS_POINTS,
          earned_points = max 0 points, issues = iss\<rparr>)"

subsection \<open>FORMATTING\<close>

datatype js_error = Error string | TypeError

text \<open>
  \<open>firstChar.toUpperCase()\<close> throws a \<open>TypeError\<close> when \<open>item.text.trim()\<close> is empty
  (\<open>firstChar\<close> is then \<open>undefined\<close>); it is the only statement of the seven validators
  that can throw on a list of \<open>BulletItem\<close>s.
\<close>

fun try_map :: "('a \<Rightarrow> js_error + 'b) \<Rightarrow> 'a list \<Rightarrow> js_error + 'b list" where
  \<comment> \<open>\<open>xs.map(f)\<close> for an \<open>f\<close> that may throw: the first throw ends the loop\<close>
  "try_map f [] = Inr []"
| "try_map f (x # xs) =
     (case f x of
        Inl e \<Rightarrow> Inl e
      | Inr y \<Rightarrow> (case try_map f xs of Inl e \<Rightarrow> Inl e | Inr ys \<Rightarrow> Inr (y # ys)))"

definition end_class :: "BulletItem \<Rightarrow> string" where
  "end_class item =
     (case rev (trim (item_text item)) of
        [] \<Rightarrow> ''none''
      | lastChar # _ \<Rightarrow>
          if lastChar \<in> set ''.!?'' then ''sentence''
          else if lastChar = CHR '':'' then ''colon''
          else ''none'')"

definition cap_class :: "BulletItem \<Rightarrow> js_error + string" where
  "cap_class item =
     (case trim (item_text item) of
        [] \<Rightarrow> Inl TypeError
      | firstChar # _ \<Rightarrow> Inr (if upper_fixed firstChar then ''upper'' else ''lower''))"

definition count_differing :: "string option \<Rightarrow> string list \<Rightarrow> nat" where
  \<comment> \<open>\<open>dominant ? xs.filter((x) => x !== dominant).length : 0\<close>\<close>
  "count_differing dominant xs =
     (case dominant of
        None \<Rightarrow> 0
      | Some d \<Rightarrow> if d = [] then 0 else length (filter (\<lambda>x. x \<noteq> d) xs))"

definition truthy_opt :: "string option \<Rightarrow> bool" where
  \<comment> \<open>truthiness of an optional string: defined and not empty\<close>
  "truthy_opt v = (case v of None \<Rightarrow> False | Some t \<Rightarrow> t \<noteq> [])"

definition ending_check :: "BulletItem list \<Rightarrow> ValidationIssue list \<times> int" where
  \<comment> \<open>the check of the ending punctuation: the issues and the points after it\<close>
  "ending_check items =
     (let endChars = map end_class items;
          dominantEnd = getMostCommon endChars;
          inconsistentEnds = count_differing dominantEnd endChars
      in if truthy_opt dominantEnd \<and> inconsistentEnds > 0
            \<and> inconsistentEnds < length endChars then
           ([\<lparr>rule = ''FORMATTING'', severity = Sev_suggestion,
               message = ''Inconsistent ending punctuation: ''
                         @ string_of_nat inconsistentEnds
                         @ '' items differ from the majority'',
               item_index = None,
               suggestion = Some (if dominantEnd = Some ''sentence''
                 then ''Add periods to all items for consistency''
                 else ''Remove periods from all items for consistency''),
               research_basis = Some CITE_FORMATTING\<rparr>], FORMATTING_POINTS - 2)
         else ([], FORMATTING_POINTS))"

definition caps_check ::
  "string list \<Rightarrow> ValidationIssue list \<times> int \<Rightarrow> ValidationIssue list \<times> int" where
  \<comment> \<open>the check of the capitalization, on the issues and points so far\<close>
  "caps_check capitalizations st =
     (case st of (iss, points) \<Rightarrow>
        let dominantCap = getMostCommon capitalizations;
            inconsistentCaps = count_differing dominantCap capitalizations
        in if truthy_opt dominantCap \<and> inconsistentCaps > 0
              \<and> inconsistentCaps < length capitalizations then
             (iss @ [\<lparr>rule = ''FORMATTING'', severity = Sev_suggestion,
                 message = ''Inconsistent capitalization: ''
                           @ string_of_nat inconsistentCaps
                           @ '' items differ from the majority'',
                 item_index = None,
                 suggestion = Some (if dominantCap = Some ''upper''
                   then ''Capitalize the first letter of all items''
                   else ''Use lowercase for the first letter of all items''),
                 research_basis = Some CITE_FORMATTING\<rparr>], points - 2)
           else (iss, points))"

definition validateFormatting :: "BulletItem list \<Rightarrow> js_error + RuleScore" where
  "validateFormatting items =
     (if length items < 2 then
        Inr \<lparr>score_rule = ''FORMATTING'', max_points = FORMATTING_POINTS,
             earned_points = FORMATTING_POINTS, issues = []\<rparr>
      else
        (let st = ending_check items
         in case try_map cap_class items of
              Inl e \<Rightarrow> Inl e
            | Inr capitalizations \<Rightarrow>
                (case caps_check capitalizations st of (iss, points) \<Rightarrow>
                   Inr \<lparr>score_rule = ''FORMATTING'', max_points = FORMATTING_POINTS,
                        earned_points = max 0 points, issues = iss\<rparr>)))"

definition run_validators :: "BulletItem list \<Rightarrow> js_error + RuleScore list" where
  \<comment> \<open>the array literal of the seven validator calls, in the order of the source\<close>
  "run_validators items =
     (case validateFormatting items of
        Inl e \<Rightarrow> Inl e
      | Inr formatting \<Rightarrow>
          Inr [validateListLength items, validateHierarchy items, validateLineLength items,
               validateSerialPosition items, validateStructure items, validateFirstWords items,
               formatting])"

section \<open>Aggregator\<close>

record StructuredBulletList =
  list_title :: string
  list_description :: string
  list_intro :: string
  list_items :: "string list"

record SectionScore =
  section_title :: string
  section_description :: "string option"
  section_intro :: "string option"
  section_score :: int
  section_grade :: Grade
  section_item_count :: nat
  section_issues :: "ValidationIssue list"
  section_context :: Context

record BulletSection =
  bs_title :: string
  bs_description :: "string option"
  bs_intro :: "string option"
  bs_items :: "BulletItem list"
  bs_context :: "Context option"

record BulletAnalysis =
  title :: "string option"
  description :: "string option"
  intro :: "string option"
  overall_score :: int
  grade :: Grade
  scores :: "RuleScore list"
  errors :: "ValidationIssue list"
  warnings :: "ValidationIssue list"
  suggestions :: "ValidationIssue list"
  summary :: string
  top_improvements :: StructuredBulletList
  item_count :: nat
  max_depth :: nat
  avg_line_length :: int
  context_fit :: ContextFit
  context_feedback :: "string option"
  section_scores :: "SectionScore list option"

fun collectLengths :: "BulletItem list \<Rightarrow> nat list \<Rightarrow> nat list" where
  \<comment> \<open>pushes every text length to \<open>lengths\<close>, an item before its children\<close>
  "collectLengths [] lengths = lengths"
| "collectLengths (BulletItem txt ch imp # rest) lengths =
     collectLengths rest
       (case ch of
          None \<Rightarrow> lengths @ [length txt]
        | Some cs \<Rightarrow> collectLengths cs (lengths @ [length txt]))"

definition mean_rounded :: "nat list \<Rightarrow> int" where
  \<comment> \<open>\<open>Math.round(lengths.reduce((a, b) => a + b, 0) / lengths.length)\<close>\<close>
  "mean_rounded lengths = Math_round (of_nat (foldl (+) 0 lengths) / of_nat (length lengths))"

definition calculateAvgLineLength :: "BulletItem list \<Rightarrow> int" where
  "calculateAvgLineLength items =
     (let lengths = collectLengths items []
      in if length lengths = 0 then 0 else mean_rounded lengths)"

definition calculateGrade :: "int \<Rightarrow> Grade" where
  "calculateGrade score =
     (if score \<ge> GRADES_A then A
      else if score \<ge> GRADES_B then B
      else if score \<ge> GRADES_C then C
      else if score \<ge> GRADES_D then D
      else F)"

definition generateSummary :: "int \<Rightarrow> nat \<Rightarrow> nat \<Rightarrow> string" where
  "generateSummary score errorCount warningCount =
     (if score \<ge> 90 \<and> errorCount = 0 then
        ''Excellent bullet list following evidence-based best practices.''
      else if score \<ge> 80 \<and> errorCount = 0 then
        ''Good bullet list with minor improvements possible.''
      else if score \<ge> 70 then
        ''Adequate bullet list. '' @ string_of_nat warningCount
          @ '' issue(s) may impact effectiveness.''
      else if errorCount > 0 then
        ''Bullet list has '' @ string_of_nat errorCount
          @ '' critical issue(s) that should be addressed.''
      else
        ''Bullet list needs improvement. Review '' @ string_of_nat warningCount
          @ '' warning(s) for better results.'')"

fun severityOrder :: "Severity \<Rightarrow> nat" where
  "severityOrder Sev_error = 0"
| "severityOrder Sev_warning = 1"
| "severityOrder Sev_suggestion = 2"

fun unique_loop :: "ValidationIssue list \<Rightarrow> string list \<Rightarrow> string list \<Rightarrow> string list" where
  \<comment> \<open>the \<open>for\<close> loop of \<open>getTopImprovements\<close>; \<open>seen\<close> lists the members of the \<open>Set\<close>\<close>
  "unique_loop [] seen unique = unique"
| "unique_loop (issue # rest) seen unique =
     (case (if truthy_opt (suggestion issue) \<and> the (suggestion issue) \<notin> set seen
            then (the (suggestion issue) # seen, unique @ [the (suggestion issue)])
            else (seen, unique)) of
        (seen', unique') \<Rightarrow>
          if length unique' \<ge> 3 then unique' else unique_loop rest seen' unique')"

definition top_suggestions :: "ValidationIssue list \<Rightarrow> string list" where
  \<comment> \<open>\<open>sorted\<close> and \<open>unique\<close> of \<open>getTopImprovements\<close>; \<open>Array.prototype.sort\<close> is stable\<close>
  "top_suggestions iss =
     (let sorted = sort_key (\<lambda>i. severityOrder (severity i))
                     (filter (\<lambda>i. truthy_opt (suggestion i)) iss)
      in unique_loop sorted [] [])"

definition getImprovementDescription :: "int \<Rightarrow> nat \<Rightarrow> string" where
  "getImprovementDescription score itemCount =
     (if itemCount = 0 then ''Your bullet list follows best practices.''
      else if score \<ge> 90 then ''Minor tweaks to make your bullet list even better.''
      else if score \<ge> 70 then ''A few adjustments would improve readability and recall.''
      else ''These changes will significantly improve your bullet list.'')"

definition getTopImprovements :: "ValidationIssue list \<Rightarrow> int \<Rightarrow> StructuredBulletList" where
  "getTopImprovements iss score =
     (let unique = top_suggestions iss
      in \<lparr>list_title = ''Suggested Improvements'',
          list_description = getImprovementDescription score (length unique),
          list_intro = (if length unique > 0 then ''Consider the following changes:'' else []),
          list_items = unique\<rparr>)"

definition getTopImprovements_flat :: "ValidationIssue list \<Rightarrow> string list" where
  \<comment> \<open>\<open>getTopImprovements\<close> of the flat-only engine returns \<open>unique\<close> itself\<close>
  "getTopImprovements_flat iss = top_suggestions iss"

definition analyzeContext :: "BulletItem list \<Rightarrow> Context \<Rightarrow> ContextFit \<times> string option" where
  "analyzeContext items ctx =
     (if ctx = Presentation then
        (Poor, Some ''3M research shows presentations are 43% more persuasive with visuals instead of bullets. Consider using graphics with narration.'')
      else if ctx = Reference then
        (let maxDepth = calculateMaxDepth items 1
         in if maxDepth = 1 \<and> length items > 5 then
              (Good, Some ''For reference materials, consider using hierarchy (sub-bullets) to group related items for faster lookup.'')
            else
              (Excellent, Some ''Well-structured for reference use. Ensure consistent formatting for quick scanning.''))
      else
        (let patterns = map (\<lambda>item. detectGrammarPattern (item_text item)) items;
             uniquePatterns = length (remdups (filter (\<lambda>p. p \<noteq> Unknown) patterns))
         in if uniquePatterns > 2 then
              (Good, Some ''Content appears heterogeneous. Bullets work best with related, similar items. Consider grouping by category.'')
            else (Excellent, None)))"

definition if_truthy :: "string option \<Rightarrow> string option" where
  \<comment> \<open>\<open>...(title && { title })\<close>: the field is present when the value is truthy\<close>
  "if_truthy v = (if truthy_opt v then v else None)"

definition promote :: "ValidationIssue \<Rightarrow> ValidationIssue" where
  \<comment> \<open>\<open>{ ...w, severity: 'error' }\<close>\<close>
  "promote w = w\<lparr>severity := Sev_error\<rparr>"

definition without_citations :: "RuleScore \<Rightarrow> RuleScore" where
  \<comment> \<open>\<open>{ ...s, issues: s.issues.map(({ research_basis, ...rest }) => rest) }\<close>\<close>
  "without_citations s = s\<lparr>issues := map (\<lambda>i. i\<lparr>research_basis := None\<rparr>) (issues s)\<rparr>"

definition score_of :: "RuleScore list \<Rightarrow> int" where
  \<comment> \<open>\<open>Math.round((totalEarned / TOTAL_POINTS) * 100)\<close>\<close>
  "score_of rs =
     (let totalEarned = foldl (\<lambda>sum s. sum + earned_points s) 0 rs
      in Math_round (of_int totalEarned / of_int TOTAL_POINTS * 100))"

definition flat_report ::
  "BulletConfig \<Rightarrow> BulletItem list \<Rightarrow> Context \<Rightarrow> string option \<Rightarrow> string option
     \<Rightarrow> string option \<Rightarrow> RuleScore list \<Rightarrow> BulletAnalysis" where
  \<comment> \<open>the body of \<open>analyzeFlat\<close> after the validators have returned \<open>rs\<close>\<close>
  "flat_report config items ctx title0 description0 intro0 rs =
     (let overallScore = score_of rs;
          allIssues = concat (map issues rs);
          errs0 = filter (\<lambda>i. severity i = Sev_error) allIssues;
          warns0 = filter (\<lambda>i. severity i = Sev_warning) allIssues;
          suggs = filter (\<lambda>i. severity i = Sev_suggestion) allIssues;
          errs = (if strictMode (validation config) then errs0 @ map promote warns0
                  else errs0);
          warns = (if strictMode (validation config) then [] else warns0);
          contextAnalysis = analyzeContext items ctx
      in \<lparr>title = if_truthy title0, description = if_truthy description0,
          intro = if_truthy intro0,
          overall_score = overallScore,
          grade = calculateGrade overallScore,
          scores = (if enableResearchCitations (validation config) then rs
                    else map without_citations rs),
          errors = errs, warnings = warns, suggestions = suggs,
          summary = generateSummary overallScore (length errs) (length warns),
          top_improvements = getTopImprovements allIssues overallScore,
          item_count = length items,
          max_depth = calculateMaxDepth items 1,
          avg_line_length = calculateAvgLineLength items,
          context_fit = fst contextAnalysis,
          context_feedback = snd contextAnalysis,
          section_scores = None\<rparr>)"

definition analyzeFlat ::
  "BulletConfig \<Rightarrow> BulletItem list \<Rightarrow> Context \<Rightarrow> string option \<Rightarrow> string option
     \<Rightarrow> string option \<Rightarrow> js_error + BulletAnalysis" where
  "analyzeFlat config items ctx title0 description0 intro0 =
     (case run_validators items of
        Inl e \<Rightarrow> Inl e
      | Inr rs \<Rightarrow> Inr (flat_report config items ctx title0 description0 intro0 rs))"

section \<open>Section merger\<close>

definition prefix_issue :: "string \<Rightarrow> ValidationIssue \<Rightarrow> ValidationIssue" where
  \<comment> \<open>\<open>{ ...issue, message: `[${section.title}] ${issue.message}` }\<close>\<close>
  "prefix_issue t issue = issue\<lparr>message := ''['' @ t @ ''] '' @ message issue\<rparr>"

definition prefix_score :: "string \<Rightarrow> RuleScore \<Rightarrow> RuleScore" where
  "prefix_score t score = score\<lparr>issues := map (prefix_issue t) (issues score)\<rparr>"

record section_acc =
  sectionScores :: "SectionScore list"
  allRuleScores :: "RuleScore list"
  totalItems :: nat
  allMaxDepth :: nat
  allLengths :: "nat list"
  allErrors :: "ValidationIssue list"
  allWarnings :: "ValidationIssue list"
  allSuggestions :: "ValidationIssue list"

definition section_step ::
  "Context \<Rightarrow> BulletSection \<Rightarrow> RuleScore list \<Rightarrow> section_acc \<Rightarrow> section_acc" where
  \<comment> \<open>the body of the loop over the sections, after the validators of the section have
      returned \<open>rs\<close>\<close>
  "section_step globalContext section rs acc =
     (let sectionContext = (case bs_context section of Some c \<Rightarrow> c | None \<Rightarrow> globalContext);
          prefixedScores = map (prefix_score (bs_title section)) rs;
          sectionScore = score_of rs;
          sectionGrade = calculateGrade sectionScore;
          sectionIssues = concat (map issues prefixedScores)
      in \<lparr>sectionScores = sectionScores acc @
            [\<lparr>section_title = bs_title section,
              section_description = if_truthy (bs_description section),
              section_intro = if_truthy (bs_intro section),
              section_score = sectionScore,
              section_grade = sectionGrade,
              section_item_count = length (bs_items section),
              section_issues = sectionIssues,
              section_context = sectionContext\<rparr>],
          allRuleScores = allRuleScores acc @ prefixedScores,
          totalItems = totalItems acc + length (bs_items section),
          allMaxDepth = max (allMaxDepth acc) (calculateMaxDepth (bs_items section) 1),
          allLengths = collectLengths (bs_items section) (allLengths acc),
          allErrors = allErrors acc @ filter (\<lambda>i. severity i = Sev_error) sectionIssues,
          allWarnings = allWarnings acc @ filter (\<lambda>i. severity i = Sev_warning) sectionIssues,
          allSuggestions =
            allSuggestions acc @ filter (\<lambda>i. severity i = Sev_suggestion) sectionIssues\<rparr>)"

fun sections_loop :: "Context \<Rightarrow> BulletSection list \<Rightarrow> section_acc \<Rightarrow> js_error + section_acc" where
  "sections_loop globalContext [] acc = Inr acc"
| "sections_loop globalContext (section # rest) acc =
     (case run_validators (bs_items section) of
        Inl e \<Rightarrow> Inl e
      | Inr rs \<Rightarrow> sections_loop globalContext rest (section_step globalContext section rs acc))"

definition acc0 :: section_acc where
  "acc0 = \<lparr>sectionScores = [], allRuleScores = [], totalItems = 0, allMaxDepth = 1,
           allLengths = [], allErrors = [], allWarnings = [], allSuggestions = []\<rparr>"

fun by_rule_add :: "RuleScore \<Rightarrow> (string \<times> RuleScore list) list \<Rightarrow> (string \<times> RuleScore list) list" where
  \<comment> \<open>\<open>if (!byRule.has(score.rule)) byRule.set(score.rule, []); byRule.get(score.rule).push(score)\<close>\<close>
  "by_rule_add score [] = [(score_rule score, [score])]"
| "by_rule_add score ((k, grp) # rest) =
     (if score_rule score = k then (k, grp @ [score]) # rest
      else (k, grp) # by_rule_add score rest)"

definition merge_group :: "string \<times> RuleScore list \<Rightarrow> RuleScore" where
  "merge_group entry =
     (case entry of (r, grp) \<Rightarrow>
        let totalMax = foldl (\<lambda>sum s. sum + max_points s) 0 grp;
            totalEarned = foldl (\<lambda>sum s. sum + earned_points s) 0 grp;
            allIssues = concat (map issues grp)
        in \<lparr>score_rule = r,
            max_points = Math_round (of_int totalMax / of_nat (length grp)),
            earned_points = Math_round (of_int totalEarned / of_nat (length grp)),
            issues = allIssues\<rparr>)"

definition aggregateRuleScores :: "RuleScore list \<Rightarrow> RuleScore list" where
  "aggregateRuleScores allScores =
     (let byRule = fold by_rule_add allScores []
      in map merge_group byRule)"

definition generateSectionedSummary :: "int \<Rightarrow> nat \<Rightarrow> SectionScore list \<Rightarrow> js_error + string" where
  \<comment> \<open>\<open>reduce\<close> without an initial value throws a \<open>TypeError\<close> on an empty array\<close>
  "generateSectionedSummary overallScore sectionCount scs =
     (case scs of
        [] \<Rightarrow> Inl TypeError
      | s0 # rest \<Rightarrow>
          (let bestSection =
                 foldl (\<lambda>best s. if section_score s > section_score best then s else best) s0 rest;
               worstSection =
                 foldl (\<lambda>worst s. if section_score s < section_score worst then s else worst)
                   s0 rest
           in Inr (if overallScore \<ge> 90 then
                     ''Excellent structured summary across '' @ string_of_nat sectionCount
                       @ '' sections. All sections follow evidence-based best practices.''
                   else if overallScore \<ge> 80 then
                     ''Good structured summary across '' @ string_of_nat sectionCount
                       @ '' sections. Best: '' @ dq @ section_title bestSection @ dq @ '' (''
                       @ string_of_int (section_score bestSection) @ ''), needs work: '' @ dq
                       @ section_title worstSection @ dq @ '' (''
                       @ string_of_int (section_score worstSection) @ '').''
                   else
                     ''Structured summary with '' @ string_of_nat sectionCount
                       @ '' sections needs improvement. Focus on '' @ dq
                       @ section_title worstSection @ dq @ '' (score: ''
                       @ string_of_int (section_score worstSection) @ '').'')))"

definition mean_score :: "SectionScore list \<Rightarrow> int" where
  \<comment> \<open>\<open>Math.round(sectionScores.reduce((sum, s) => sum + s.score, 0) / sectionScores.length)\<close>\<close>
  "mean_score scs =
     Math_round (of_int (foldl (\<lambda>sum s. sum + section_score s) 0 scs) / of_nat (length scs))"

definition sectioned_report ::
  "BulletConfig \<Rightarrow> BulletSection list \<Rightarrow> Context \<Rightarrow> string option \<Rightarrow> string option
     \<Rightarrow> string option \<Rightarrow> section_acc \<Rightarrow> string \<Rightarrow> BulletAnalysis" where
  \<comment> \<open>the body of \<open>analyzeSections\<close> after the loop has ended in \<open>acc\<close>, with the summary
      text \<open>summ\<close>\<close>
  "sectioned_report config sections globalContext title0 description0 intro0 acc summ =
     (let errs = (if strictMode (validation config)
                  then allErrors acc @ map promote (allWarnings acc) else allErrors acc);
          warns = (if strictMode (validation config) then [] else allWarnings acc);
          overallScore = mean_score (sectionScores acc);
          aggregatedScores = aggregateRuleScores (allRuleScores acc);
          contextAnalysis = analyzeContext (concat (map bs_items sections)) globalContext
      in \<lparr>title = if_truthy title0, description = if_truthy description0,
          intro = if_truthy intro0,
          overall_score = overallScore,
          grade = calculateGrade overallScore,
          scores = (if enableResearchCitations (validation config)
                    then aggregatedScores
                    else map without_citations aggregatedScores),
          errors = errs, warnings = warns, suggestions = allSuggestions acc,
          summary = summ,
          top_improvements =
            getTopImprovements (errs @ warns @ allSuggestions acc) overallScore,
          item_count = totalItems acc,
          max_depth = allMaxDepth acc,
          avg_line_length = (if length (allLengths acc) > 0
                             then mean_rounded (allLengths acc) else 0),
          context_fit = fst contextAnalysis,
          context_feedback = snd contextAnalysis,
          section_scores = Some (sectionScores acc)\<rparr>)"

definition analyzeSections ::
  "BulletConfig \<Rightarrow> BulletSection list \<Rightarrow> Context \<Rightarrow> string option \<Rightarrow> string option
     \<Rightarrow> string option \<Rightarrow> js_error + BulletAnalysis" where
  "analyzeSections config sections globalContext title0 description0 intro0 =
     (case sections_loop globalContext sections acc0 of
        Inl e \<Rightarrow> Inl e
      | Inr acc \<Rightarrow>
          (case generateSectionedSummary (mean_score (sectionScores acc)) (length sections)
                  (sectionScores acc) of
             Inl e \<Rightarrow> Inl e
           | Inr summ \<Rightarrow>
               Inr (sectioned_report config sections globalContext title0 description0 intro0
                      acc summ)))"

section \<open>Input validation\<close>

text \<open>
  \<open>analyze\<close> receives a parsed JSON value of unknown shape. A property that is absent
  reads as \<open>undefined\<close>, which is \<open>None\<close> here; an object is the list of its properties.
\<close>

datatype jsval =
  JNull | JBool bool | JNum rat | JStr string | JArr "jsval list" | JObj "(string \<times> jsval) list"











section \<open>Entry point\<close>


fun as_importance :: "jsval option \<Rightarrow> Importance option option" where
  "as_importance None = Some None"
| "as_importance (Some (JStr s)) =
     (if s = ''high'' then Some (Some High)
      else if s = ''medium'' then Some (Some Medium)
      else if s = ''low'' then Some (Some Low)
      else None)"
| "as_importance v = None"



fun as_item :: "jsval \<Rightarrow> BulletItem option"
and as_items :: "jsval list \<Rightarrow> BulletItem list option"
and as_children :: "(string \<times> jsval) list \<Rightarrow> BulletItem list option option" where
  "as_item (JObj fs) =
     (case (map_of fs ''text'', as_children fs, as_importance (map_of fs ''importance'')) of
        (Some (JStr t), Some ch, Some imp) \<Rightarrow> Some (BulletItem t ch imp)
      | _ \<Rightarrow> None)"
| "as_item v = None"
| "as_items [] = Some []"
| "as_items (v # vs) =
     (case (as_item v, as_items vs) of
        (Some x, Some xs) \<Rightarrow> Some (x # xs)
      | _ \<Rightarrow> None)"
| "as_children [] = Some None"
| "as_children ((k, v) # rest) =
     (if k = ''children'' then
        (case v of
           JArr vs \<Rightarrow> (case as_items vs of Some xs \<Rightarrow> Some (Some xs) | None \<Rightarrow> None)
         | _ \<Rightarrow> None)
      else as_children rest)"









section \<open>Notions used to state the properties\<close>

definition recall_valley :: "BulletItem list \<Rightarrow> nat list" where
  \<comment> \<open>the positions of the high-importance items that are neither in the primacy zone
      (index below 2) nor in the recency zone (index at least length - 1)\<close>
  "recall_valley items =
     filter (\<lambda>i. importance (items ! i) = Some High \<and> \<not> i < 2 \<and> \<not> i \<ge> length items - 1)
       [0..<length items]"

definition in_valley :: "nat \<Rightarrow> BulletItem \<times> nat \<Rightarrow> bool" where
  \<comment> \<open>the test \<open>!isPrimacy && !isRecency\<close> of \<open>serial_step\<close> on a list of \<open>n\<close> items\<close>
  "in_valley n p = (\<not> snd p < 2 \<and> \<not> int (snd p) \<ge> int n - 1)"

definition serial_ex1 :: "BulletItem list" where
  "serial_ex1 =
     [BulletItem ''Plan the launch'' None (Some High), BulletItem ''Book the venue'' None None,
      BulletItem ''Invite the speakers'' None (Some High),
      BulletItem ''Order the catering'' None (Some High),
      BulletItem ''Print the badges'' None (Some Low),
      BulletItem ''Send the reminders'' None (Some High)]"

definition serial_ex2 :: "BulletItem list" where
  "serial_ex2 =
     [BulletItem ''Plan the launch'' None None, BulletItem ''Book the venue'' None None,
      BulletItem ''Invite the speakers'' None (Some High),
      BulletItem ''Order the catering'' None None,
      BulletItem ''Print the badges'' None None]"

definition serial_ex3 :: "BulletItem list" where
  "serial_ex3 =
     [BulletItem ''Plan the launch'' None None, BulletItem ''Book the venue'' None None,
      BulletItem ''Invite the speakers'' None None,
      BulletItem ''Order the catering'' None None,
      BulletItem ''Print the badges'' None None]"

definition in_bounds :: "RuleScore \<Rightarrow> bool" where
  \<comment> \<open>the invariant of a \<open>RuleScore\<close>\<close>
  "in_bounds r = (0 \<le> earned_points r \<and> earned_points r \<le> max_points r)"

definition nonblank :: "BulletItem list \<Rightarrow> bool" where
  \<comment> \<open>what \<open>validateItemsArray\<close> has checked of the items of a list: the trimmed text
      of each is not empty\<close>
  "nonblank items = list_all (\<lambda>item. trim (item_text item) \<noteq> []) items"

definition demo_config :: "bool \<Rightarrow> bool \<Rightarrow> BulletConfig" where
  "demo_config strict cites =
     \<lparr>validation = \<lparr>strictMode = strict, enableResearchCitations = cites\<rparr>,
      display = \<lparr>colorOutput = True\<rparr>\<rparr>"

definition cats :: "BulletItem list" where
  "cats = [BulletItem ''Use cats.'' None None, BulletItem ''Use dogs.'' None None,
           BulletItem ''Use cats.'' None None]"

definition pets :: "BulletItem list" where
  "pets = [BulletItem ''Use cats.'' None None, BulletItem ''The dogs'' None None]"

definition two_sections :: "BulletSection list" where
  "two_sections =
     [\<lparr>bs_title = ''Cats'', bs_description = None, bs_intro = None, bs_items = cats,
       bs_context = None\<rparr>,
      \<lparr>bs_title = ''Pets'', bs_description = None, bs_intro = None, bs_items = pets,
       bs_context = None\<rparr>]"

definition three_scores :: "RuleScore list" where
  "three_scores =
     [\<lparr>score_rule = ''LIST_LENGTH'', max_points = 20, earned_points = 15, issues = []\<rparr>,
      \<lparr>score_rule = ''HIERARCHY'', max_points = 15, earned_points = 0, issues = []\<rparr>,
      \<lparr>score_rule = ''LIST_LENGTH'', max_points = 20, earned_points = 20, issues = []\<rparr>]"

definition rules_of :: "BulletItem list \<Rightarrow> RuleScore list" where
  \<comment> \<open>the seven scores of a list of items on which the validators return\<close>
  "rules_of items = projr (run_validators items)"

definition valid_sections :: "BulletSection list \<Rightarrow> bool" where
  \<comment> \<open>what \<open>validateInput\<close> has checked of the sections that the engine reads: there
      is one at least, and no item of a section has a blank text\<close>
  "valid_sections ss = (ss \<noteq> [] \<and> list_all (\<lambda>sec. nonblank (bs_items sec)) ss)"

definition steps :: "Context \<Rightarrow> BulletSection list \<Rightarrow> section_acc \<Rightarrow> section_acc" where
  \<comment> \<open>the state of the loop over sections on which the validators return\<close>
  "steps g ss acc = fold (\<lambda>sec. section_step g sec (rules_of (bs_items sec))) ss acc"

definition with_strict :: "bool \<Rightarrow> BulletConfig \<Rightarrow> BulletConfig" where
  \<comment> \<open>a configuration with its strict-mode toggle set, nothing else changed\<close>
  "with_strict b config = config\<lparr>validation := (validation config)\<lparr>strictMode := b\<rparr>\<rparr>"

fun dedup_from :: "'a list \<Rightarrow> 'a list \<Rightarrow> 'a list" where
  \<comment> \<open>drops every element that is in \<open>seen\<close> or has occurred before\<close>
  "dedup_from seen [] = []"
| "dedup_from seen (y # ys) =
     (if y \<in> set seen then dedup_from seen ys else y # dedup_from (y # seen) ys)"

definition first_seen :: "'a list \<Rightarrow> 'a list" where
  \<comment> \<open>deduplication that keeps the first occurrence of each element, in order\<close>
  "first_seen ys = dedup_from [] ys"

definition carried :: "ValidationIssue list \<Rightarrow> string list" where
  \<comment> \<open>the suggestion texts of issues that carry one\<close>
  "carried xs = map (\<lambda>i. the (suggestion i)) xs"

definition rank :: "ValidationIssue \<Rightarrow> nat" where
  \<comment> \<open>severity rank: error 0, warning 1, suggestion 2\<close>
  "rank i = severityOrder (severity i)"

definition spec_top :: "ValidationIssue list \<Rightarrow> string list" where
  \<comment> \<open>the selection in the words of the specification: keep the issues that carry a
      suggestion, sort them stably by rank, deduplicate the texts keeping the first
      occurrence, take the first 3\<close>
  "spec_top iss =
     take 3 (first_seen (carried (sort_key rank (filter (\<lambda>i. truthy_opt (suggestion i)) iss))))"

definition demo_issues :: "ValidationIssue list" where
  "demo_issues =
     [\<lparr>rule = ''LINE_LENGTH'', severity = Sev_warning, message = ''m1'', item_index = Some 0,
       suggestion = Some ''Shorten'', research_basis = None\<rparr>,
      \<lparr>rule = ''FORMATTING'', severity = Sev_suggestion, message = ''m2'', item_index = None,
       suggestion = Some ''Capitalize'', research_basis = None\<rparr>,
      \<lparr>rule = ''HIERARCHY'', severity = Sev_error, message = ''m3'', item_index = None,
       suggestion = Some ''Flatten'', research_basis = None\<rparr>,
      \<lparr>rule = ''LIST_LENGTH'', severity = Sev_error, message = ''m4'', item_index = None,
       suggestion = Some ''Shorten'', research_basis = None\<rparr>,
      \<lparr>rule = ''STRUCTURE'', severity = Sev_warning, message = ''m5'', item_index = Some 1,
       suggestion = Some ''Rewrite'', research_basis = None\<rparr>,
      \<lparr>rule = ''STRUCTURE'', severity = Sev_warning, message = ''m6'', item_index = Some 2,
       suggestion = None, research_basis = None\<rparr>]"

definition grade_of :: "int \<Rightarrow> Grade" where
  \<comment> \<open>the grade thresholds: A from 90, B from 80, C from 70, D from 60, else F\<close>
  "grade_of s = (if s \<ge> 90 then A else if s \<ge> 80 then B else if s \<ge> 70 then C
                 else if s \<ge> 60 then D else F)"

definition ignoring_severity ::
  "ValidationIssue \<Rightarrow> string \<times> string \<times> nat option \<times> string option \<times> string option" where
  \<comment> \<open>an issue without its severity field\<close>
  "ignoring_severity i = (rule i, message i, item_index i, suggestion i, research_basis i)"

definition sev_ok :: "section_acc \<Rightarrow> bool" where
  \<comment> \<open>each of the three buckets of the loop holds issues of its own severity only\<close>
  "sev_ok acc = ((\<forall>e\<in>set (allErrors acc). severity e = Sev_error)
               \<and> (\<forall>w\<in>set (allWarnings acc). severity w = Sev_warning)
               \<and> (\<forall>s\<in>set (allSuggestions acc). severity s = Sev_suggestion))"

definition rule_names :: "string list" where
  \<comment> \<open>the rule identifiers, in the order of the validator calls\<close>
  "rule_names = [''LIST_LENGTH'', ''HIERARCHY'', ''LINE_LENGTH'', ''SERIAL_POSITION'',
                 ''STRUCTURE'', ''FIRST_WORDS'', ''FORMATTING'']"

definition grouped :: "RuleScore list list \<Rightarrow> (string \<times> RuleScore list) list" where
  \<comment> \<open>the map \<open>byRule\<close> after the scores of the rows, seven each, have been added\<close>
  "grouped rows = map (\<lambda>k. (rule_names ! k, map (\<lambda>row. row ! k) rows)) [0..<7]"

definition merged_rule :: "BulletSection list \<Rightarrow> nat \<Rightarrow> RuleScore" where
  \<comment> \<open>the merged score of rule number \<open>k\<close>: rounded means of the maximal and of the earned
      points of that rule over the sections, and the issues of that rule, section after
      section, each with \<open>[title]\<close> of its section and a space put before its message\<close>
  "merged_rule ss k =
     \<lparr>score_rule = rule_names ! k,
      max_points = Math_round (of_int (sum_list (map (\<lambda>sec. max_points (rules_of (bs_items sec) ! k)) ss))
                     / of_nat (length ss)),
      earned_points = Math_round (of_int (sum_list (map (\<lambda>sec. earned_points (rules_of (bs_items sec) ! k)) ss))
                     / of_nat (length ss)),
      issues = concat (map (\<lambda>sec. map (\<lambda>i. i\<lparr>message := ''['' @ bs_title sec @ ''] ''
                                                              @ message i\<rparr>)
                                     (issues (rules_of (bs_items sec) ! k))) ss)\<rparr>"











section \<open>Basic facts\<close>

lemmas points_defs =
  LIST_LENGTH_POINTS_def HIERARCHY_POINTS_def LINE_LENGTH_POINTS_def
  SERIAL_POSITION_POINTS_def STRUCTURE_POINTS_def FIRST_WORDS_POINTS_def
  FORMATTING_POINTS_def TOTAL_POINTS_def

lemmas threshold_defs =
  LIST_LENGTH_MIN_ITEMS_def LIST_LENGTH_OPTIMAL_ITEMS_def LIST_LENGTH_MAX_ITEMS_def
  LIST_LENGTH_HARD_MAX_ITEMS_def HIERARCHY_MAX_DEPTH_def HIERARCHY_HARD_MAX_DEPTH_def
  LINE_LENGTH_MIN_CHARS_def LINE_LENGTH_OPTIMAL_MAX_CHARS_def LINE_LENGTH_HARD_MAX_CHARS_def
  SERIAL_POSITION_PRIMACY_ZONE_def SERIAL_POSITION_RECENCY_ZONE_def
  FIRST_WORDS_CRITICAL_WORD_COUNT_def GRADES_A_def GRADES_B_def GRADES_C_def GRADES_D_def

section \<open>Points stay within bounds\<close>

lemma fold_snd_le:
  fixes st :: "'s \<times> int"
  assumes "\<And>x s. snd (f x s) \<le> snd s"
  shows "snd (fold f xs st) \<le> snd st"
proof (induction xs arbitrary: st)
  case Nil
  show ?case by simp
next
  case (Cons x xs)
  have "snd (fold f xs (f x st)) \<le> snd (f x st)" by (rule Cons.IH)
  also have "\<dots> \<le> snd st" by (rule assms)
  finally show ?case by simp
qed

lemma serial_step_le: "snd (serial_step n x s) \<le> snd s"
  by (cases x; cases s) (simp add: Let_def)

lemma structure_step_le: "snd (structure_step d x s) \<le> snd s"
  by (cases d; cases x; cases s) simp_all

lemma first_words_step_le: "snd (first_words_step x s) \<le> snd s"
  by (cases x; cases s) simp

lemma validateListLength_bounds: "in_bounds (validateListLength items)"
  by (simp add: in_bounds_def validateListLength_def Let_def points_defs)

lemma validateHierarchy_bounds: "in_bounds (validateHierarchy items)"
  by (simp add: in_bounds_def validateHierarchy_def Let_def points_defs)

lemma validateLineLength_bounds: "in_bounds (validateLineLength items)"
  by (simp add: in_bounds_def validateLineLength_def points_defs split: prod.split)

lemma validateSerialPosition_bounds: "in_bounds (validateSerialPosition items)"
proof -
  let ?st = "if list_ex (\<lambda>item. importance item \<noteq> None) items \<and> length items > 3
             then fold (serial_step (length items))
                    (filter (\<lambda>(item, index). importance item = Some High) (with_index items))
                    ([], SERIAL_POSITION_POINTS)
             else if length items > 4 then
               ([\<lparr>rule = ''SERIAL_POSITION'', severity = Sev_suggestion,
                   message = ''Consider placing most critical information in positions 1, 2, or ''
                             @ string_of_nat (length items),
                   item_index = None,
                   suggestion = Some (''Items in positions 3-''
                     @ string_of_int (int (length items) - 1) @ '' are in the '' @ dq
                     @ ''recall valley'' @ dq @ '' with lower retention''),
                   research_basis = Some CITE_SERIAL_POSITION\<rparr>], SERIAL_POSITION_POINTS)
             else ([], SERIAL_POSITION_POINTS)"
  have e: "earned_points (validateSerialPosition items) = max 0 (snd ?st)"
    and m: "max_points (validateSerialPosition items) = 15"
    by (simp_all add: validateSerialPosition_def Let_def points_defs split_beta)
  have "snd (fold (serial_step n) hs ([], SERIAL_POSITION_POINTS)) \<le> SERIAL_POSITION_POINTS" for n hs
    using fold_snd_le[of "serial_step n" hs "([], SERIAL_POSITION_POINTS)"] serial_step_le
    by simp
  then have "snd ?st \<le> 15" by (simp add: points_defs)
  then show ?thesis unfolding in_bounds_def e m by simp
qed

lemma validateStructure_bounds: "in_bounds (validateStructure items)"
proof (cases "length items < 2")
  case True
  then show ?thesis by (simp add: in_bounds_def validateStructure_def points_defs)
next
  case False
  let ?st = "fold (structure_step (getMostCommon (map (\<lambda>item. detectGrammarPattern (item_text item)) items)))
               (with_index (map (\<lambda>item. detectGrammarPattern (item_text item)) items))
               ([], STRUCTURE_POINTS)"
  have e: "earned_points (validateStructure items) = max 0 (snd ?st)"
    and m: "max_points (validateStructure items) = 20"
    using False by (simp_all add: validateStructure_def Let_def points_defs split_beta)
  have "snd (fold (structure_step d) ps ([], STRUCTURE_POINTS)) \<le> STRUCTURE_POINTS" for d ps
    using fold_snd_le[of "structure_step d" ps "([], STRUCTURE_POINTS)"] structure_step_le
    by simp
  then have "snd ?st \<le> 20" by (simp add: points_defs)
  then show ?thesis unfolding in_bounds_def e m by simp
qed

lemma validateFirstWords_bounds: "in_bounds (validateFirstWords items)"
proof -
  let ?st = "fold first_words_step (fold seen_add (with_index (map first_words_key items)) [])
               ([], FIRST_WORDS_POINTS)"
  have e: "earned_points (validateFirstWords items) = max 0 (snd ?st)"
    and m: "max_points (validateFirstWords items) = 10"
    by (simp_all add: validateFirstWords_def Let_def points_defs split_beta)
  have "snd (fold first_words_step seen ([], FIRST_WORDS_POINTS)) \<le> FIRST_WORDS_POINTS" for seen
    using fold_snd_le[of first_words_step seen "([], FIRST_WORDS_POINTS)"] first_words_step_le
    by simp
  then have "snd ?st \<le> 10" by (simp add: points_defs)
  then show ?thesis unfolding in_bounds_def e m by simp
qed

lemma ending_check_points: "snd (ending_check items) \<in> {3, 5}"
  by (simp add: ending_check_def Let_def points_defs)

lemma caps_check_points: "snd (caps_check caps st) \<in> {snd st, snd st - 2}"
  by (cases st) (simp add: caps_check_def Let_def)

lemma validateFormatting_points:
  assumes "validateFormatting items = Inr r"
  shows "max_points r = 5 \<and> earned_points r \<in> {1, 3, 5}"
proof (cases "length items < 2")
  case True
  then show ?thesis using assms by (auto simp: validateFormatting_def points_defs)
next
  case False
  obtain caps where c: "try_map cap_class items = Inr caps"
    using assms False
    by (cases "try_map cap_class items") (simp_all add: validateFormatting_def Let_def)
  obtain iss p where st: "caps_check caps (ending_check items) = (iss, p)"
    by (cases "caps_check caps (ending_check items)")
  have r: "r = \<lparr>score_rule = ''FORMATTING'', max_points = FORMATTING_POINTS,
                earned_points = max 0 p, issues = iss\<rparr>"
    using assms False c st by (simp add: validateFormatting_def Let_def)
  have "p \<in> {1, 3, 5}"
    using caps_check_points[of caps "ending_check items"] ending_check_points[of items] st
    by auto
  then show ?thesis unfolding r by (auto simp: points_defs)
qed

lemma validateFormatting_bounds:
  assumes "validateFormatting items = Inr r"
  shows "in_bounds r"
  using validateFormatting_points[OF assms] by (auto simp: in_bounds_def)

lemma try_map_cap_class:
  "nonblank items \<Longrightarrow> \<exists>caps. try_map cap_class items = Inr caps"
  by (induction items) (auto simp: nonblank_def cap_class_def split: list.splits)

lemma validateFormatting_returns:
  assumes "nonblank items"
  shows "\<exists>r. validateFormatting items = Inr r"
proof -
  obtain caps where "try_map cap_class items = Inr caps"
    using try_map_cap_class[OF assms] by blast
  then show ?thesis
    by (simp add: validateFormatting_def Let_def split_beta)
qed

lemma run_validators_returns:
  "nonblank items \<Longrightarrow> \<exists>rs. run_validators items = Inr rs"
  using validateFormatting_returns[of items] by (auto simp: run_validators_def)


lemma Math_round_mono: "x \<le> y \<Longrightarrow> Math_round x \<le> Math_round y"
  by (simp add: Math_round_def floor_mono)

lemma Math_round_nonneg: "0 \<le> x \<Longrightarrow> 0 \<le> Math_round x"
  by (simp add: Math_round_def)

lemma Math_round_of_int: "Math_round (of_int k) = k"
  by (simp add: Math_round_def) linarith

lemma foldl_earned:
  "foldl (\<lambda>sum s. sum + earned_points s) a rs = a + sum_list (map earned_points rs)"
  by (induction rs arbitrary: a) simp_all

lemma foldl_max:
  "foldl (\<lambda>sum s. sum + max_points s) a rs = a + sum_list (map max_points rs)"
  by (induction rs arbitrary: a) simp_all

lemma merge_group_bounds:
  assumes "\<forall>r\<in>set grp. in_bounds r"
  shows "in_bounds (merge_group (k, grp))"
proof -
  have e: "0 \<le> sum_list (map earned_points grp)"
    using assms by (induction grp) (auto simp: in_bounds_def)
  have m: "sum_list (map earned_points grp) \<le> sum_list (map max_points grp)"
    using assms by (induction grp) (auto simp: in_bounds_def)
  have "(0::rat) \<le> of_int (sum_list (map earned_points grp)) / of_nat (length grp)"
    using e by simp
  moreover have "(of_int (sum_list (map earned_points grp)) :: rat) / of_nat (length grp)
                 \<le> of_int (sum_list (map max_points grp)) / of_nat (length grp)"
    using m by (simp add: divide_right_mono)
  ultimately show ?thesis
    by (simp add: in_bounds_def merge_group_def Let_def foldl_earned foldl_max
          Math_round_mono Math_round_nonneg)
qed

lemma by_rule_add_members:
  assumes "\<forall>e\<in>set acc. \<forall>r\<in>set (snd e). P r" "P s"
  shows "\<forall>e\<in>set (by_rule_add s acc). \<forall>r\<in>set (snd e). P r"
  using assms by (induction s acc rule: by_rule_add.induct) auto

lemma fold_by_rule_add_members:
  assumes "\<forall>e\<in>set acc. \<forall>r\<in>set (snd e). P r" "\<forall>s\<in>set xs. P s"
  shows "\<forall>e\<in>set (fold by_rule_add xs acc). \<forall>r\<in>set (snd e). P r"
  using assms
proof (induction xs arbitrary: acc)
  case Nil
  then show ?case by simp
next
  case (Cons x xs)
  have "\<forall>e\<in>set (by_rule_add x acc). \<forall>r\<in>set (snd e). P r"
    using by_rule_add_members[of acc P x] Cons.prems by simp
  then show ?case using Cons.IH[of "by_rule_add x acc"] Cons.prems by simp
qed

lemma aggregateRuleScores_bounds:
  assumes "\<forall>r\<in>set allScores. in_bounds r"
  shows "\<forall>r\<in>set (aggregateRuleScores allScores). in_bounds r"
proof -
  have "\<forall>e\<in>set (fold by_rule_add allScores []). \<forall>r\<in>set (snd e). in_bounds r"
    using fold_by_rule_add_members[of "[]" in_bounds allScores] assms by simp
  then show ?thesis
    by (auto simp: aggregateRuleScores_def Let_def merge_group_bounds)
qed

lemma run_validators_bounds:
  assumes "run_validators items = Inr rs"
  shows "\<forall>r\<in>set rs. in_bounds r"
  using assms validateListLength_bounds validateHierarchy_bounds validateLineLength_bounds
    validateSerialPosition_bounds validateStructure_bounds validateFirstWords_bounds
    validateFormatting_bounds[of items]
  by (auto simp: run_validators_def split: sum.splits)

lemma in_bounds_prefix_score: "in_bounds (prefix_score t r) = in_bounds r"
  by (simp add: in_bounds_def prefix_score_def)

lemma in_bounds_without_citations: "in_bounds (without_citations r) = in_bounds r"
  by (simp add: in_bounds_def without_citations_def)

lemma allRuleScores_step:
  "allRuleScores (section_step g sec rs acc) = allRuleScores acc @ map (prefix_score (bs_title sec)) rs"
  by (simp add: section_step_def Let_def)

lemma sections_loop_bounds:
  assumes "sections_loop g ss acc = Inr acc'" "\<forall>r\<in>set (allRuleScores acc). in_bounds r"
  shows "\<forall>r\<in>set (allRuleScores acc'). in_bounds r"
  using assms
proof (induction ss arbitrary: acc)
  case Nil
  then show ?case by simp
next
  case (Cons sec ss)
  obtain rs where rs: "run_validators (bs_items sec) = Inr rs"
    using Cons.prems(1) by (cases "run_validators (bs_items sec)") simp_all
  have l: "sections_loop g ss (section_step g sec rs acc) = Inr acc'"
    using Cons.prems(1) rs by simp
  have "\<forall>r\<in>set (allRuleScores (section_step g sec rs acc)). in_bounds r"
    using Cons.prems(2) run_validators_bounds[OF rs]
    by (auto simp: allRuleScores_step in_bounds_prefix_score)
  then show ?case using Cons.IH[OF l] by blast
qed

lemma analyzeSections_scores:
  assumes "analyzeSections config sections g t d i = Inr a"
  shows "\<exists>acc. sections_loop g sections acc0 = Inr acc
           \<and> scores a = (if enableResearchCitations (validation config)
                          then aggregateRuleScores (allRuleScores acc)
                          else map without_citations (aggregateRuleScores (allRuleScores acc)))"
  using assms
  by (auto simp: analyzeSections_def sectioned_report_def Let_def split: sum.splits)

lemma analyzeSections_bounds:
  assumes "analyzeSections config sections g t d i = Inr a"
  shows "\<forall>r\<in>set (scores a). in_bounds r"
proof -
  obtain acc where l: "sections_loop g sections acc0 = Inr acc"
    and s: "scores a = (if enableResearchCitations (validation config)
                          then aggregateRuleScores (allRuleScores acc)
                          else map without_citations (aggregateRuleScores (allRuleScores acc)))"
    using analyzeSections_scores[OF assms] by blast
  have "\<forall>r\<in>set (allRuleScores acc). in_bounds r"
    using sections_loop_bounds[OF l] by (simp add: acc0_def)
  then have "\<forall>r\<in>set (aggregateRuleScores (allRuleScores acc)). in_bounds r"
    by (rule aggregateRuleScores_bounds)
  then show ?thesis unfolding s by (auto simp: in_bounds_without_citations)
qed

section \<open>The loop over the sections\<close>

lemma run_validators_rules_of:
  "nonblank items \<Longrightarrow> run_validators items = Inr (rules_of items)"
  using run_validators_returns[of items] by (auto simp: rules_of_def)

lemma sections_loop_steps:
  "list_all (\<lambda>sec. nonblank (bs_items sec)) ss \<Longrightarrow> sections_loop g ss acc = Inr (steps g ss acc)"
  by (induction ss arbitrary: acc) (simp_all add: steps_def run_validators_rules_of)

lemma steps_Cons: "steps g (sec # ss) acc = steps g ss (section_step g sec (rules_of (bs_items sec)) acc)"
  by (simp add: steps_def)

lemma steps_Nil: "steps g [] acc = acc"
  by (simp add: steps_def)

lemma steps_allRuleScores:
  "allRuleScores (steps g ss acc) =
     allRuleScores acc @ concat (map (\<lambda>sec. map (prefix_score (bs_title sec)) (rules_of (bs_items sec))) ss)"
  by (induction ss arbitrary: acc) (simp_all add: steps_Cons steps_Nil section_step_def Let_def)

lemma steps_scores:
  "map section_score (sectionScores (steps g ss acc)) =
     map section_score (sectionScores acc) @ map (\<lambda>sec. score_of (rules_of (bs_items sec))) ss"
  by (induction ss arbitrary: acc) (simp_all add: steps_Cons steps_Nil section_step_def Let_def)

lemma steps_length: "length (sectionScores (steps g ss acc)) = length (sectionScores acc) + length ss"
  by (induction ss arbitrary: acc) (simp_all add: steps_Cons steps_Nil section_step_def Let_def)

lemma generateSectionedSummary_returns:
  "scs \<noteq> [] \<Longrightarrow> \<exists>summ. generateSectionedSummary sc n scs = Inr summ"
  by (cases scs) (simp_all add: generateSectionedSummary_def Let_def)

lemma analyzeSections_iff:
  "analyzeSections config ss g t d i = Inr a \<longleftrightarrow>
     (\<exists>acc summ. sections_loop g ss acc0 = Inr acc
        \<and> generateSectionedSummary (mean_score (sectionScores acc)) (length ss)
             (sectionScores acc) = Inr summ
        \<and> a = sectioned_report config ss g t d i acc summ)"
  by (auto simp: analyzeSections_def split: sum.splits)

lemma analyzeSections_returns:
  assumes "valid_sections ss"
  shows "\<exists>a. analyzeSections config ss g t d i = Inr a"
proof -
  have l: "sections_loop g ss acc0 = Inr (steps g ss acc0)"
    using assms by (simp add: valid_sections_def sections_loop_steps)
  have "sectionScores (steps g ss acc0) \<noteq> []"
    using steps_length[of g ss acc0] assms by (auto simp: valid_sections_def)
  then obtain summ where
    "generateSectionedSummary (mean_score (sectionScores (steps g ss acc0))) (length ss)
       (sectionScores (steps g ss acc0)) = Inr summ"
    using generateSectionedSummary_returns by blast
  then show ?thesis using l by (simp add: analyzeSections_def)
qed

lemma analyzeSections_steps:
  assumes "valid_sections ss" "analyzeSections config ss g t d i = Inr a"
  shows "\<exists>summ. a = sectioned_report config ss g t d i (steps g ss acc0) summ"
proof -
  have l: "sections_loop g ss acc0 = Inr (steps g ss acc0)"
    using assms(1) by (simp add: valid_sections_def sections_loop_steps)
  show ?thesis using assms(2) l by (auto simp: analyzeSections_iff)
qed

section \<open>Selection of the top improvements\<close>

lemma set_dedup_from: "set (dedup_from seen ys) = set ys - set seen"
  by (induction ys arbitrary: seen) auto

lemma distinct_dedup_from: "distinct (dedup_from seen ys)"
  by (induction ys arbitrary: seen) (auto simp: set_dedup_from)

lemma subseq_dedup_from: "subseq (dedup_from seen ys) ys"
  by (induction ys arbitrary: seen) auto

lemma first_seen_keeps:
  "set (first_seen ys) = set ys \<and> distinct (first_seen ys) \<and> subseq (first_seen ys) ys"
  by (simp add: first_seen_def set_dedup_from distinct_dedup_from subseq_dedup_from)

lemma sort_by_rank_stable:
  "filter (\<lambda>i. rank i = k) (sort_key rank xs) = filter (\<lambda>i. rank i = k) xs"
  by (rule sort_key_stable)

lemma unique_loop_spec:
  assumes "length u < 3" "list_all (\<lambda>i. truthy_opt (suggestion i)) xs"
  shows "unique_loop xs seen u = take 3 (u @ dedup_from seen (carried xs))"
  using assms
proof (induction xs arbitrary: seen u)
  case Nil
  then show ?case by (simp add: carried_def)
next
  case (Cons x xs)
  have t: "truthy_opt (suggestion x)" and r: "list_all (\<lambda>i. truthy_opt (suggestion i)) xs"
    using Cons.prems(2) by simp_all
  show ?case
  proof (cases "the (suggestion x) \<in> set seen")
    case True
    then show ?thesis
      using Cons.IH[OF Cons.prems(1) r, of seen] Cons.prems(1) t by (simp add: carried_def)
  next
    case False
    show ?thesis
    proof (cases "length u = 2")
      case True
      then show ?thesis using False t by (simp add: carried_def)
    next
      case n2: False
      then have l: "length (u @ [the (suggestion x)]) < 3" using Cons.prems(1) by simp
      show ?thesis
        using Cons.IH[OF l r, of "the (suggestion x) # seen"] False t n2 Cons.prems(1)
        by (simp add: carried_def)
    qed
  qed
qed

lemma top_suggestions_spec: "top_suggestions iss = spec_top iss"
proof -
  have "list_all (\<lambda>i. truthy_opt (suggestion i))
          (sort_key (\<lambda>i. severityOrder (severity i)) (filter (\<lambda>i. truthy_opt (suggestion i)) iss))"
    by (simp add: list_all_iff)
  then show ?thesis
    using unique_loop_spec[of "[]" _ "[]"]
    by (simp add: top_suggestions_def spec_top_def first_seen_def Let_def rank_def[abs_def])
qed

lemma length_spec_top: "length (spec_top iss) \<le> 3"
  by (simp add: spec_top_def)

lemma distinct_spec_top: "distinct (spec_top iss)"
  by (simp add: spec_top_def first_seen_def distinct_dedup_from)

lemma dedup_from_outranks:
  assumes "sorted (map rank S)" "dedup_from seen (carried S) = p @ t # q"
    "k \<in> set S" "the (suggestion k) \<notin> set p \<union> set seen"
  shows "\<exists>j\<in>set S. the (suggestion j) = t \<and> rank j \<le> rank k"
  using assms
proof (induction S arbitrary: seen p)
  case Nil
  then show ?case by simp
next
  case (Cons x S)
  have sS: "sorted (map rank S)" and xle: "\<forall>y\<in>set S. rank x \<le> rank y"
    using Cons.prems(1) by simp_all
  show ?case
  proof (cases "the (suggestion x) \<in> set seen")
    case True
    then have d: "dedup_from seen (carried S) = p @ t # q"
      using Cons.prems(2) by (simp add: carried_def)
    have "k \<in> set S" using Cons.prems(3,4) True by auto
    then show ?thesis using Cons.IH[OF sS d _ Cons.prems(4)] by auto
  next
    case False
    then have d: "the (suggestion x) # dedup_from (the (suggestion x) # seen) (carried S) = p @ t # q"
      using Cons.prems(2) by (simp add: carried_def)
    show ?thesis
    proof (cases p)
      case Nil
      then have "t = the (suggestion x)" using d by simp
      moreover have "rank x \<le> rank k" using xle Cons.prems(3) by auto
      ultimately show ?thesis by auto
    next
      case (Cons s p')
      then have s: "s = the (suggestion x)"
        and d': "dedup_from (the (suggestion x) # seen) (carried S) = p' @ t # q"
        using d by auto
      have kS: "k \<in> set S" using Cons.prems(3,4) Cons s by auto
      have nk: "the (suggestion k) \<notin> set p' \<union> set (the (suggestion x) # seen)"
        using Cons.prems(4) Cons s by auto
      show ?thesis using Cons.IH[OF sS d' kS nk] by auto
    qed
  qed
qed

lemma carried_truthy:
  assumes "list_all (\<lambda>i. truthy_opt (suggestion i)) xs" "t \<in> set (carried xs)"
  shows "t \<noteq> []"
proof -
  obtain i where "i \<in> set xs" "t = the (suggestion i)"
    using assms(2) by (auto simp: carried_def)
  moreover have "truthy_opt (suggestion i)" using assms(1) calculation(1) by (simp add: list_all_iff)
  ultimately show ?thesis by (cases "suggestion i") (simp_all add: truthy_opt_def)
qed

lemma take_split:
  assumes "t \<in> set (take n ds)"
  shows "\<exists>p q. ds = p @ t # q \<and> set p \<subseteq> set (take n ds) \<and> length p < n"
proof -
  obtain a where a: "a < length (take n ds)" "take n ds ! a = t"
    using assms by (auto simp: in_set_conv_nth)
  then have ad: "a < length ds" "a < n" "ds ! a = t" by simp_all
  have "ds = take a ds @ t # drop (Suc a) ds"
    using ad id_take_nth_drop[of a ds] by simp
  moreover have "set (take a ds) \<subseteq> set (take n ds)"
    using ad(2) by (metis min.absorb1 less_imp_le set_take_subset take_take)
  ultimately show ?thesis using ad(2) ad(1) by (metis length_take min.absorb2 less_imp_le)
qed

lemma spec_top_outranks:
  assumes "t \<in> set (spec_top iss)" "k \<in> set iss" "truthy_opt (suggestion k)"
    "the (suggestion k) \<notin> set (spec_top iss)"
  shows "\<exists>j\<in>set iss. suggestion j = Some t \<and> rank j \<le> rank k"
proof -
  let ?S = "sort_key rank (filter (\<lambda>i. truthy_opt (suggestion i)) iss)"
  let ?D = "first_seen (carried ?S)"
  obtain p q where dsplit: "?D = p @ t # q" and p: "set p \<subseteq> set (take 3 ?D)"
    using take_split[of t 3 ?D] assms(1) by (auto simp: spec_top_def)
  have kS: "k \<in> set ?S" using assms(2,3) by simp
  have nk: "the (suggestion k) \<notin> set p \<union> set []"
    using assms(4) p by (auto simp: spec_top_def)
  have "sorted (map rank ?S)" by simp
  from dedup_from_outranks[OF this dsplit[unfolded first_seen_def] kS nk[unfolded first_seen_def]]
  obtain j where j: "j \<in> set ?S" "the (suggestion j) = t" "rank j \<le> rank k" by blast
  then have "j \<in> set iss" "truthy_opt (suggestion j)" by simp_all
  then have "suggestion j = Some t" using j(2) by (cases "suggestion j") (simp_all add: truthy_opt_def)
  then show ?thesis using \<open>j \<in> set iss\<close> j(3) by blast
qed

lemma spec_top_ordered:
  assumes "a < b" "b < length (spec_top iss)" "k \<in> set iss"
    "suggestion k = Some (spec_top iss ! b)"
  shows "\<exists>j\<in>set iss. suggestion j = Some (spec_top iss ! a) \<and> rank j \<le> rank k"
proof -
  let ?S = "sort_key rank (filter (\<lambda>i. truthy_opt (suggestion i)) iss)"
  let ?D = "first_seen (carried ?S)"
  have dD: "distinct ?D" by (simp add: first_seen_def distinct_dedup_from)
  have bD: "b < length ?D" "a < length ?D" using assms(1,2) by (simp_all add: spec_top_def)
  have ra: "spec_top iss ! a = ?D ! a" and rb: "spec_top iss ! b = ?D ! b"
    using assms(1,2) by (simp_all add: spec_top_def)
  have dsplit: "?D = take a ?D @ (?D ! a) # drop (Suc a) ?D"
    using bD(2) by (simp add: id_take_nth_drop)
  have "?D ! b \<notin> set (take a ?D)"
  proof
    assume "?D ! b \<in> set (take a ?D)"
    then obtain c where c: "c < a" "c < length ?D" "?D ! c = ?D ! b"
      by (auto simp: in_set_conv_nth)
    then have "c = b" using dD bD(1) by (simp add: nth_eq_iff_index_eq)
    then show False using c(1) assms(1) by simp
  qed
  then have nk: "the (suggestion k) \<notin> set (take a ?D) \<union> set []"
    using assms(4) rb by simp
  have "?D ! b \<in> set ?D" using bD(1) by simp
  then have "?D ! b \<in> set (carried ?S)" by (simp add: first_seen_def set_dedup_from)
  then have "?D ! b \<noteq> []" using carried_truthy[of ?S "?D ! b"] by (simp add: list_all_iff)
  then have "truthy_opt (suggestion k)" using assms(4) rb by (simp add: truthy_opt_def)
  then have kS: "k \<in> set ?S" using assms(3) by simp
  have "sorted (map rank ?S)" by simp
  from dedup_from_outranks[OF this dsplit[unfolded first_seen_def] kS nk[unfolded first_seen_def]]
  obtain j where j: "j \<in> set ?S" "the (suggestion j) = ?D ! a" "rank j \<le> rank k"
    unfolding first_seen_def by blast
  then have "j \<in> set iss" "truthy_opt (suggestion j)" by simp_all
  then have "suggestion j = Some (?D ! a)" using j(2) by (cases "suggestion j") (simp_all add: truthy_opt_def)
  then show ?thesis using \<open>j \<in> set iss\<close> j(3) ra by auto
qed

section \<open>Scores and strict mode\<close>

lemma calculateGrade_grade_of: "calculateGrade s = grade_of s"
  by (simp add: calculateGrade_def grade_of_def threshold_defs)

lemma validateListLength_max: "max_points (validateListLength items) = 20"
  by (simp add: validateListLength_def Let_def points_defs split_beta)

lemma validateHierarchy_max: "max_points (validateHierarchy items) = 15"
  by (simp add: validateHierarchy_def Let_def points_defs split_beta)

lemma validateLineLength_max: "max_points (validateLineLength items) = 15"
  by (simp add: validateLineLength_def points_defs split_beta)

lemma validateSerialPosition_max: "max_points (validateSerialPosition items) = 15"
  by (simp add: validateSerialPosition_def Let_def points_defs split_beta)

lemma validateStructure_max: "max_points (validateStructure items) = 20"
  by (simp add: validateStructure_def Let_def points_defs split_beta)

lemma validateFirstWords_max: "max_points (validateFirstWords items) = 10"
  by (simp add: validateFirstWords_def Let_def points_defs split_beta)

lemma run_validators_max:
  assumes "run_validators items = Inr rs"
  shows "map max_points rs = [20, 15, 15, 15, 20, 10, 5]"
proof -
  obtain r where r: "validateFormatting items = Inr r"
    using assms by (cases "validateFormatting items") (simp_all add: run_validators_def)
  have "max_points r = 5" using validateFormatting_points[OF r] by simp
  then show ?thesis
    using assms r
    by (auto simp: run_validators_def validateListLength_max validateHierarchy_max
          validateLineLength_max validateSerialPosition_max validateStructure_max
          validateFirstWords_max)
qed

lemma sum_in_bounds:
  assumes "\<forall>r\<in>set rs. in_bounds r"
  shows "0 \<le> sum_list (map earned_points rs)
       \<and> sum_list (map earned_points rs) \<le> sum_list (map max_points rs)"
  using assms by (induction rs) (auto simp: in_bounds_def)

lemma score_of_percent:
  "score_of rs = Math_round (of_int (sum_list (map earned_points rs)) / of_int TOTAL_POINTS * 100)"
  by (simp add: score_of_def Let_def foldl_earned)

lemma score_of_sum: "score_of rs = sum_list (map earned_points rs)"
proof -
  have "(of_int (sum_list (map earned_points rs)) :: rat) / of_int TOTAL_POINTS * 100
          = of_int (sum_list (map earned_points rs))"
    by (simp add: points_defs)
  then show ?thesis by (simp add: score_of_percent Math_round_of_int)
qed

lemma analyzeFlat_iff:
  "analyzeFlat config items ctx t d i = Inr a \<longleftrightarrow>
     (\<exists>rs. run_validators items = Inr rs \<and> a = flat_report config items ctx t d i rs)"
  by (auto simp: analyzeFlat_def split: sum.splits)

lemma analyzeFlat_score:
  assumes "analyzeFlat config items ctx t d i = Inr a"
  shows "overall_score a = Math_round (of_int (sum_list (map earned_points (scores a)))
                              / of_int (sum_list (map max_points (scores a))) * 100)
       \<and> map max_points (scores a) = [20, 15, 15, 15, 20, 10, 5]
       \<and> sum_list (map max_points (scores a)) = 100
       \<and> 0 \<le> overall_score a \<and> overall_score a \<le> 100
       \<and> grade a = grade_of (overall_score a)"
proof -
  obtain rs where rs: "run_validators items = Inr rs"
    and a: "a = flat_report config items ctx t d i rs"
    using assms by (auto simp: analyzeFlat_iff)
  have o: "overall_score a = score_of rs" and g: "grade a = calculateGrade (score_of rs)"
    and s: "scores a = (if enableResearchCitations (validation config) then rs
                        else map without_citations rs)"
    unfolding a by (simp_all add: flat_report_def Let_def)
  have e: "map earned_points (scores a) = map earned_points rs"
    and m: "map max_points (scores a) = map max_points rs"
    unfolding s by (simp_all add: without_citations_def)
  have mx: "map max_points rs = [20, 15, 15, 15, 20, 10, 5]" by (rule run_validators_max[OF rs])
  have b: "0 \<le> sum_list (map earned_points rs) \<and> sum_list (map earned_points rs) \<le> 100"
    using sum_in_bounds[OF run_validators_bounds[OF rs]] by (simp add: mx)
  have 1: "overall_score a = Math_round (of_int (sum_list (map earned_points (scores a)))
                              / of_int (sum_list (map max_points (scores a))) * 100)"
    by (simp add: o e m mx score_of_percent points_defs)
  have 2: "0 \<le> overall_score a \<and> overall_score a \<le> 100"
    using b by (simp add: o score_of_sum)
  have 3: "grade a = grade_of (overall_score a)" by (simp add: g o calculateGrade_grade_of)
  show ?thesis using 1 2 3 by (simp add: m mx)
qed

lemma ignoring_severity_promote: "ignoring_severity (promote w) = ignoring_severity w"
  by (simp add: ignoring_severity_def promote_def)

lemma constant_key_sorted:
  fixes f :: "'a \<Rightarrow> nat"
  assumes "\<forall>x\<in>set xs. f x = c"
  shows "sorted (map f xs)"
  using assms by (induction xs) auto

lemma three_bands_sorted:
  assumes "\<forall>x\<in>set es. rank x = 0" "\<forall>x\<in>set ws. rank x \<le> 1" "\<forall>x\<in>set ws. rank x = c"
    "\<forall>x\<in>set ss. rank x = 2"
  shows "sorted (map rank (es @ ws @ ss))"
  using assms constant_key_sorted[of es rank 0] constant_key_sorted[of ws rank c]
    constant_key_sorted[of ss rank 2]
  by (auto simp: sorted_append)

lemma truthy_filter_promote:
  "filter (\<lambda>i. truthy_opt (suggestion i)) (map promote ws)
     = map promote (filter (\<lambda>i. truthy_opt (suggestion i)) ws)"
  by (induction ws) (simp_all add: promote_def)

lemma top_suggestions_promote:
  assumes "\<forall>e\<in>set es. severity e = Sev_error" "\<forall>w\<in>set ws. severity w = Sev_warning"
    "\<forall>s\<in>set ss. severity s = Sev_suggestion"
  shows "top_suggestions ((es @ map promote ws) @ [] @ ss) = top_suggestions (es @ ws @ ss)"
proof -
  let ?t = "\<lambda>i. truthy_opt (suggestion i)"
  have e: "\<forall>x\<in>set (filter ?t es). rank x = 0" using assms(1) by (simp add: rank_def)
  have w: "\<forall>x\<in>set (filter ?t ws). rank x = 1" using assms(2) by (simp add: rank_def)
  have p: "\<forall>x\<in>set (map promote (filter ?t ws)). rank x = 0"
    by (simp add: rank_def promote_def)
  have s: "\<forall>x\<in>set (filter ?t ss). rank x = 2" using assms(3) by (simp add: rank_def)
  have n: "sort_key rank (filter ?t es @ filter ?t ws @ filter ?t ss)
             = filter ?t es @ filter ?t ws @ filter ?t ss"
    by (rule sort_key_id_if_sorted, rule three_bands_sorted[where c=1]) (use e w s in simp_all)
  have st: "sort_key rank (filter ?t es @ map promote (filter ?t ws) @ filter ?t ss)
             = filter ?t es @ map promote (filter ?t ws) @ filter ?t ss"
    by (rule sort_key_id_if_sorted, rule three_bands_sorted[where c=0]) (use e p s in simp_all)
  have "spec_top ((es @ map promote ws) @ [] @ ss) = spec_top (es @ ws @ ss)"
    unfolding spec_top_def
    by (simp add: truthy_filter_promote n st) (simp add: carried_def promote_def o_def)
  then show ?thesis by (simp add: top_suggestions_spec)
qed

lemma section_step_sev_ok: "sev_ok acc \<Longrightarrow> sev_ok (section_step g sec rs acc)"
  by (auto simp: sev_ok_def section_step_def Let_def)

lemma sections_loop_sev_ok:
  assumes "sections_loop g ss acc = Inr acc'" "sev_ok acc"
  shows "sev_ok acc'"
  using assms
proof (induction ss arbitrary: acc)
  case Nil
  then show ?case by simp
next
  case (Cons sec ss)
  obtain rs where rs: "run_validators (bs_items sec) = Inr rs"
    using Cons.prems(1) by (cases "run_validators (bs_items sec)") simp_all
  have l: "sections_loop g ss (section_step g sec rs acc) = Inr acc'"
    using Cons.prems(1) rs by simp
  show ?case by (rule Cons.IH[OF l section_step_sev_ok[OF Cons.prems(2)]])
qed

lemma sev_ok_acc0: "sev_ok acc0"
  by (simp add: sev_ok_def acc0_def)

section \<open>Strict mode and single sections\<close>

lemma flat_strict:
  assumes "analyzeFlat (with_strict False config) items ctx t d i = Inr n"
  shows "\<exists>s. analyzeFlat (with_strict True config) items ctx t d i = Inr s
           \<and> warnings s = []
           \<and> errors s = errors n @ map promote (warnings n)
           \<and> list_all (\<lambda>e. severity e = Sev_error) (errors s)
           \<and> scores s = scores n \<and> top_improvements s = top_improvements n
           \<and> s = n\<lparr>errors := errors s, warnings := warnings s, summary := summary s\<rparr>
           \<and> summary s = generateSummary (overall_score n)
                           (length (errors n) + length (warnings n)) 0"
proof -
  obtain rs where rs: "run_validators items = Inr rs"
    and n: "n = flat_report (with_strict False config) items ctx t d i rs"
    using assms by (auto simp: analyzeFlat_iff)
  let ?s = "flat_report (with_strict True config) items ctx t d i rs"
  have "analyzeFlat (with_strict True config) items ctx t d i = Inr ?s"
    using rs by (simp add: analyzeFlat_def)
  moreover have "warnings ?s = []" by (simp add: flat_report_def with_strict_def Let_def)
  moreover have "errors ?s = errors n @ map promote (warnings n)"
    unfolding n by (simp add: flat_report_def with_strict_def Let_def)
  moreover have "list_all (\<lambda>e. severity e = Sev_error) (errors ?s)"
    by (auto simp: flat_report_def with_strict_def Let_def list_all_iff promote_def)
  moreover have "scores ?s = scores n" "top_improvements ?s = top_improvements n"
    unfolding n by (simp_all add: flat_report_def with_strict_def Let_def)
  moreover have "?s = n\<lparr>errors := errors ?s, warnings := warnings ?s, summary := summary ?s\<rparr>"
    unfolding n by (simp add: flat_report_def with_strict_def Let_def)
  moreover have "summary ?s = generateSummary (overall_score n)
                                (length (errors n) + length (warnings n)) 0"
    unfolding n by (simp add: flat_report_def with_strict_def Let_def)
  ultimately show ?thesis by blast
qed

lemma sectioned_strict:
  assumes "analyzeSections (with_strict False config) ss g t d i = Inr n"
  shows "\<exists>s. analyzeSections (with_strict True config) ss g t d i = Inr s
           \<and> warnings s = []
           \<and> errors s = errors n @ map promote (warnings n)
           \<and> list_all (\<lambda>e. severity e = Sev_error) (errors s)
           \<and> scores s = scores n \<and> top_improvements s = top_improvements n
           \<and> s = n\<lparr>errors := errors s, warnings := warnings s\<rparr>"
proof -
  obtain acc summ where l: "sections_loop g ss acc0 = Inr acc"
    and su: "generateSectionedSummary (mean_score (sectionScores acc)) (length ss)
              (sectionScores acc) = Inr summ"
    and n: "n = sectioned_report (with_strict False config) ss g t d i acc summ"
    using assms by (auto simp: analyzeSections_iff)
  have ok: "sev_ok acc" by (rule sections_loop_sev_ok[OF l sev_ok_acc0])
  let ?s = "sectioned_report (with_strict True config) ss g t d i acc summ"
  have tp: "top_suggestions ((allErrors acc @ map promote (allWarnings acc)) @ [] @ allSuggestions acc)
              = top_suggestions (allErrors acc @ allWarnings acc @ allSuggestions acc)"
    using ok by (intro top_suggestions_promote) (simp_all add: sev_ok_def)
  have "analyzeSections (with_strict True config) ss g t d i = Inr ?s"
    using l su by (simp add: analyzeSections_def)
  moreover have "warnings ?s = []" by (simp add: sectioned_report_def with_strict_def Let_def)
  moreover have "errors ?s = errors n @ map promote (warnings n)"
    unfolding n by (simp add: sectioned_report_def with_strict_def Let_def)
  moreover have "list_all (\<lambda>e. severity e = Sev_error) (errors ?s)"
    using ok by (auto simp: sectioned_report_def with_strict_def Let_def list_all_iff promote_def sev_ok_def)
  moreover have "scores ?s = scores n"
    unfolding n by (simp add: sectioned_report_def with_strict_def Let_def)
  moreover have t: "top_improvements ?s = top_improvements n"
    unfolding n using tp
    by (simp add: sectioned_report_def with_strict_def Let_def getTopImprovements_def)
  moreover have "?s = n\<lparr>errors := errors ?s, warnings := warnings ?s\<rparr>"
    using t unfolding n by (simp add: sectioned_report_def with_strict_def Let_def)
  ultimately show ?thesis by blast
qed

lemma ignoring_severity_union:
  assumes "es' = es @ map promote ws"
  shows "ignoring_severity ` set es' = ignoring_severity ` (set es \<union> set ws)"
  unfolding assms by (auto simp: ignoring_severity_promote image_Un image_image)

lemma single_section:
  assumes "analyzeFlat config2 (bs_items sec) ctx t' d' i' = Inr b"
  shows "\<exists>a. analyzeSections config1 [sec] g t d i = Inr a
           \<and> overall_score a = overall_score b \<and> grade a = grade b"
proof -
  obtain rs where rs: "run_validators (bs_items sec) = Inr rs"
    and b: "b = flat_report config2 (bs_items sec) ctx t' d' i' rs"
    using assms by (auto simp: analyzeFlat_iff)
  let ?acc = "section_step g sec rs acc0"
  have l: "sections_loop g [sec] acc0 = Inr ?acc" using rs by simp
  have sc: "map section_score (sectionScores ?acc) = [score_of rs]"
    by (simp add: section_step_def Let_def acc0_def)
  then have ne: "sectionScores ?acc \<noteq> []" by auto
  then obtain summ where su:
    "generateSectionedSummary (mean_score (sectionScores ?acc)) (length [sec])
       (sectionScores ?acc) = Inr summ"
    using generateSectionedSummary_returns by blast
  have m: "mean_score (sectionScores ?acc) = score_of rs"
    by (simp add: mean_score_def section_step_def Let_def acc0_def Math_round_of_int)
  let ?a = "sectioned_report config1 [sec] g t d i ?acc summ"
  have "analyzeSections config1 [sec] g t d i = Inr ?a"
    using l su by (simp add: analyzeSections_def)
  moreover have "overall_score ?a = overall_score b" "grade ?a = grade b"
    unfolding b by (simp_all add: sectioned_report_def flat_report_def Let_def m)
  ultimately show ?thesis by blast
qed

section \<open>Grouping the scores of the sections by rule\<close>

lemma upt_7: "[0..<7] = [0, 1, 2, 3, 4, 5, 6::nat]"
  by (simp add: upt_rec)

lemma seven_elems:
  assumes "map score_rule row = rule_names"
  obtains r0 r1 r2 r3 r4 r5 r6 where "row = [r0, r1, r2, r3, r4, r5, r6]"
    "score_rule r0 = ''LIST_LENGTH''" "score_rule r1 = ''HIERARCHY''"
    "score_rule r2 = ''LINE_LENGTH''" "score_rule r3 = ''SERIAL_POSITION''"
    "score_rule r4 = ''STRUCTURE''" "score_rule r5 = ''FIRST_WORDS''"
    "score_rule r6 = ''FORMATTING''"
  using assms unfolding rule_names_def by (auto simp: map_eq_Cons_conv)

lemma by_rule_row:
  assumes "map score_rule row = rule_names"
  shows "fold by_rule_add row (grouped rows) = grouped (rows @ [row])"
proof -
  obtain r0 r1 r2 r3 r4 r5 r6 where row: "row = [r0, r1, r2, r3, r4, r5, r6]"
    and n: "score_rule r0 = ''LIST_LENGTH''" "score_rule r1 = ''HIERARCHY''"
    "score_rule r2 = ''LINE_LENGTH''" "score_rule r3 = ''SERIAL_POSITION''"
    "score_rule r4 = ''STRUCTURE''" "score_rule r5 = ''FIRST_WORDS''"
    "score_rule r6 = ''FORMATTING''"
    using seven_elems[OF assms] by metis
  show ?thesis
    unfolding row grouped_def upt_7 rule_names_def by (simp add: n)
qed

lemma by_rule_first_row:
  assumes "map score_rule row = rule_names"
  shows "fold by_rule_add row [] = grouped [row]"
proof -
  obtain r0 r1 r2 r3 r4 r5 r6 where row: "row = [r0, r1, r2, r3, r4, r5, r6]"
    and n: "score_rule r0 = ''LIST_LENGTH''" "score_rule r1 = ''HIERARCHY''"
    "score_rule r2 = ''LINE_LENGTH''" "score_rule r3 = ''SERIAL_POSITION''"
    "score_rule r4 = ''STRUCTURE''" "score_rule r5 = ''FIRST_WORDS''"
    "score_rule r6 = ''FORMATTING''"
    using seven_elems[OF assms] by metis
  show ?thesis
    unfolding row grouped_def upt_7 rule_names_def by (simp add: n)
qed

lemma by_rule_rows:
  assumes "\<forall>row\<in>set rows. map score_rule row = rule_names"
  shows "fold by_rule_add (concat rows) (grouped prev) = grouped (prev @ rows)"
  using assms
proof (induction rows arbitrary: prev)
  case Nil
  then show ?case by simp
next
  case (Cons row rows)
  have "fold by_rule_add (concat (row # rows)) (grouped prev)
          = fold by_rule_add (concat rows) (grouped (prev @ [row]))"
    using Cons.prems by (simp add: by_rule_row)
  also have "\<dots> = grouped ((prev @ [row]) @ rows)"
    using Cons.prems by (intro Cons.IH) simp
  finally show ?case by simp
qed

lemma by_rule_all_rows:
  assumes "\<forall>row\<in>set rows. map score_rule row = rule_names" "rows \<noteq> []"
  shows "fold by_rule_add (concat rows) [] = grouped rows"
proof -
  obtain row rest where r: "rows = row # rest" using assms(2) by (cases rows) auto
  have "fold by_rule_add (concat rows) [] = fold by_rule_add (concat rest) (grouped [row])"
    using assms(1) unfolding r by (simp add: by_rule_first_row)
  also have "\<dots> = grouped ([row] @ rest)"
    using assms(1) unfolding r by (intro by_rule_rows) simp
  finally show ?thesis by (simp add: r)
qed

lemma validateFormatting_rule:
  assumes "validateFormatting items = Inr r"
  shows "score_rule r = ''FORMATTING''"
proof (cases "length items < 2")
  case True
  then show ?thesis using assms by (auto simp: validateFormatting_def)
next
  case False
  obtain caps where c: "try_map cap_class items = Inr caps"
    using assms False
    by (cases "try_map cap_class items") (simp_all add: validateFormatting_def Let_def)
  obtain iss p where st: "caps_check caps (ending_check items) = (iss, p)"
    by (cases "caps_check caps (ending_check items)")
  show ?thesis
    using assms False c st by (auto simp: validateFormatting_def Let_def)
qed

lemma run_validators_names:
  assumes "run_validators items = Inr rs"
  shows "map score_rule rs = rule_names"
proof -
  obtain r where r: "validateFormatting items = Inr r"
    using assms by (cases "validateFormatting items") (simp_all add: run_validators_def)
  have 1: "score_rule (validateListLength items) = ''LIST_LENGTH''"
    by (simp add: validateListLength_def Let_def split_beta)
  have 2: "score_rule (validateHierarchy items) = ''HIERARCHY''"
    by (simp add: validateHierarchy_def Let_def split_beta)
  have 3: "score_rule (validateLineLength items) = ''LINE_LENGTH''"
    by (simp add: validateLineLength_def split_beta)
  have 4: "score_rule (validateSerialPosition items) = ''SERIAL_POSITION''"
    by (simp add: validateSerialPosition_def Let_def split_beta)
  have 5: "score_rule (validateStructure items) = ''STRUCTURE''"
    by (simp add: validateStructure_def Let_def split_beta)
  have 6: "score_rule (validateFirstWords items) = ''FIRST_WORDS''"
    by (simp add: validateFirstWords_def Let_def split_beta)
  have rs: "rs = [validateListLength items, validateHierarchy items, validateLineLength items,
               validateSerialPosition items, validateStructure items, validateFirstWords items, r]"
    using assms r by (simp add: run_validators_def)
  show ?thesis
    unfolding rs rule_names_def using validateFormatting_rule[OF r] by (simp add: 1 2 3 4 5 6)
qed

lemma prefix_issue_fun:
  "prefix_issue t = (\<lambda>i. i\<lparr>message := ''['' @ t @ ''] '' @ message i\<rparr>)"
  by (rule ext) (simp add: prefix_issue_def)

lemma merge_group_grouped:
  assumes "k < 7" "list_all (\<lambda>sec. nonblank (bs_items sec)) ss"
  shows "merge_group (rule_names ! k,
           map (\<lambda>row. row ! k)
             (map (\<lambda>sec. map (prefix_score (bs_title sec)) (rules_of (bs_items sec))) ss))
         = merged_rule ss k"
proof -
  have len: "length (rules_of (bs_items sec)) = 7" if "sec \<in> set ss" for sec
  proof -
    have "run_validators (bs_items sec) = Inr (rules_of (bs_items sec))"
      using that assms(2) by (simp add: list_all_iff run_validators_rules_of)
    from run_validators_names[OF this]
    have "length (map score_rule (rules_of (bs_items sec))) = length rule_names" by simp
    then show ?thesis by (simp add: rule_names_def)
  qed
  have nth: "map (prefix_score (bs_title sec)) (rules_of (bs_items sec)) ! k
               = prefix_score (bs_title sec) (rules_of (bs_items sec) ! k)"
    if "sec \<in> set ss" for sec
    using len[OF that] assms(1) by simp
  have m: "map (\<lambda>row. row ! k)
             (map (\<lambda>sec. map (prefix_score (bs_title sec)) (rules_of (bs_items sec))) ss)
           = map (\<lambda>sec. prefix_score (bs_title sec) (rules_of (bs_items sec) ! k)) ss"
    using nth by (simp add: o_def)
  show ?thesis
    unfolding m merge_group_def merged_rule_def
    by (simp add: Let_def foldl_max foldl_earned o_def prefix_score_def prefix_issue_fun)
qed

lemma aggregate_sections:
  assumes "valid_sections ss"
  shows "aggregateRuleScores (allRuleScores (steps g ss acc0)) = map (merged_rule ss) [0..<7]"
proof -
  let ?rows = "map (\<lambda>sec. map (prefix_score (bs_title sec)) (rules_of (bs_items sec))) ss"
  have nb: "list_all (\<lambda>sec. nonblank (bs_items sec)) ss" and ne: "ss \<noteq> []"
    using assms by (simp_all add: valid_sections_def)
  have names: "\<forall>row\<in>set ?rows. map score_rule row = rule_names"
  proof
    fix row assume "row \<in> set ?rows"
    then obtain sec where sec: "sec \<in> set ss"
      and row: "row = map (prefix_score (bs_title sec)) (rules_of (bs_items sec))" by auto
    have "run_validators (bs_items sec) = Inr (rules_of (bs_items sec))"
      using sec nb by (simp add: list_all_iff run_validators_rules_of)
    from run_validators_names[OF this] show "map score_rule row = rule_names"
      unfolding row by (simp add: o_def prefix_score_def)
  qed
  have "allRuleScores (steps g ss acc0) = concat ?rows"
    by (simp add: steps_allRuleScores acc0_def)
  then have "aggregateRuleScores (allRuleScores (steps g ss acc0)) = map merge_group (grouped ?rows)"
    using by_rule_all_rows[OF names] ne by (simp add: aggregateRuleScores_def Let_def)
  also have "\<dots> = map (merged_rule ss) [0..<7]"
    unfolding grouped_def using merge_group_grouped[OF _ nb] by (simp add: o_def)
  finally show ?thesis .
qed

lemma foldl_section_score:
  "foldl (\<lambda>sum s. sum + section_score s) a scs = a + sum_list (map section_score scs)"
  by (induction scs arbitrary: a) simp_all

lemma mean_score_sum:
  "mean_score scs = Math_round (of_int (sum_list (map section_score scs)) / of_nat (length scs))"
  by (simp add: mean_score_def foldl_section_score)

lemma score_of_range:
  assumes "run_validators items = Inr rs"
  shows "0 \<le> score_of rs \<and> score_of rs \<le> 100"
  using sum_in_bounds[OF run_validators_bounds[OF assms]] run_validators_max[OF assms]
  by (simp add: score_of_sum)

lemma sectioned_scores:
  assumes "valid_sections ss" "analyzeSections config ss g t d i = Inr a"
  shows "(\<exists>scs. section_scores a = Some scs
          \<and> map section_score scs = map (\<lambda>sec. score_of (rules_of (bs_items sec))) ss
          \<and> list_all (\<lambda>s. 0 \<le> section_score s \<and> section_score s \<le> 100) scs
          \<and> overall_score a
              = Math_round (of_int (sum_list (map section_score scs)) / of_nat (length scs)))
       \<and> grade a = grade_of (overall_score a)
       \<and> scores a = (if enableResearchCitations (validation config)
                      then map (merged_rule ss) [0..<7]
                      else map without_citations (map (merged_rule ss) [0..<7]))"
proof -
  obtain summ where a: "a = sectioned_report config ss g t d i (steps g ss acc0) summ"
    using analyzeSections_steps[OF assms] by blast
  let ?scs = "sectionScores (steps g ss acc0)"
  have nb: "list_all (\<lambda>sec. nonblank (bs_items sec)) ss"
    using assms(1) by (simp add: valid_sections_def)
  have 1: "section_scores a = Some ?scs" unfolding a by (simp add: sectioned_report_def Let_def)
  have 2: "map section_score ?scs = map (\<lambda>sec. score_of (rules_of (bs_items sec))) ss"
    by (simp add: steps_scores acc0_def)
  have r: "0 \<le> score_of (rules_of (bs_items sec)) \<and> score_of (rules_of (bs_items sec)) \<le> 100"
    if "sec \<in> set ss" for sec
    using that nb score_of_range[of "bs_items sec"]
    by (simp add: list_all_iff run_validators_rules_of)
  have "\<forall>x\<in>set (map section_score ?scs). 0 \<le> x \<and> x \<le> 100"
    unfolding 2 using r by auto
  then have 3: "list_all (\<lambda>s. 0 \<le> section_score s \<and> section_score s \<le> 100) ?scs"
    by (simp add: list_all_iff)
  have 4: "overall_score a
             = Math_round (of_int (sum_list (map section_score ?scs)) / of_nat (length ?scs))"
    unfolding a by (simp add: sectioned_report_def Let_def mean_score_sum)
  have 5: "grade a = grade_of (overall_score a)"
    unfolding a by (simp add: sectioned_report_def Let_def calculateGrade_grade_of)
  have 6: "scores a = (if enableResearchCitations (validation config)
                      then map (merged_rule ss) [0..<7]
                      else map without_citations (map (merged_rule ss) [0..<7]))"
    unfolding a by (simp add: sectioned_report_def Let_def aggregate_sections[OF assms(1)])
  show ?thesis using 1 2 3 4 5 6 by blast
qed

lemma merged_rule_messages:
  "map message (issues (merged_rule ss k))
     = concat (map (\<lambda>sec. map (\<lambda>i. ''['' @ bs_title sec @ ''] '' @ message i)
                              (issues (rules_of (bs_items sec) ! k))) ss)"
  by (simp add: merged_rule_def map_concat o_def)

lemma merged_rule_rest:
  "map (\<lambda>i. (rule i, severity i, item_index i, suggestion i)) (issues (merged_rule ss k))
     = concat (map (\<lambda>sec. map (\<lambda>i. (rule i, severity i, item_index i, suggestion i))
                              (issues (rules_of (bs_items sec) ! k))) ss)"
  by (simp add: merged_rule_def map_concat o_def)

lemma nth_merged:
  assumes "k < 7"
  shows "map (merged_rule ss) [0..<7] ! k = merged_rule ss k"
    and "map without_citations (map (merged_rule ss) [0..<7]) ! k
           = without_citations (merged_rule ss k)"
  using assms by simp_all

lemma sectioned_messages:
  assumes "valid_sections ss" "analyzeSections config ss g t d i = Inr a" "k < 7"
  shows "map message (issues (scores a ! k))
           = concat (map (\<lambda>sec. map (\<lambda>i. ''['' @ bs_title sec @ ''] '' @ message i)
                                    (issues (rules_of (bs_items sec) ! k))) ss)
       \<and> map (\<lambda>i. (rule i, severity i, item_index i, suggestion i)) (issues (scores a ! k))
           = concat (map (\<lambda>sec. map (\<lambda>i. (rule i, severity i, item_index i, suggestion i))
                                    (issues (rules_of (bs_items sec) ! k))) ss)"
proof -
  have s: "scores a = (if enableResearchCitations (validation config)
                      then map (merged_rule ss) [0..<7]
                      else map without_citations (map (merged_rule ss) [0..<7]))"
    using sectioned_scores[OF assms(1,2)] by blast
  have w: "map message (issues (without_citations r)) = map message (issues r)"
     "map (\<lambda>i. (rule i, severity i, item_index i, suggestion i)) (issues (without_citations r))
        = map (\<lambda>i. (rule i, severity i, item_index i, suggestion i)) (issues r)" for r
    by (simp_all add: without_citations_def o_def)
  show ?thesis
    unfolding s using nth_merged[OF assms(3), of ss]
    by (simp add: w merged_rule_messages merged_rule_rest del: map_map)
qed

section \<open>Validation of the input\<close>














text \<open>
  Claim C1. \<open>analyzeFlat\<close> returns on every list of items whose texts are not blank, and
  whenever it returns, \<open>overall_score\<close> is \<open>Math.round\<close> of the sum of the seven earned
  points divided by the sum of the seven maximal points, times 100; the maximal points are
  20, 15, 15, 15, 20, 10, 5, which sum to 100; the score lies between 0 and 100; and the
  grade is A from 90, B from 80, C from 70, D from 60, F below.
\<close>

theorem flat_score_and_grade:
  "(nonblank items \<longrightarrow> (\<exists>a. analyzeFlat config items ctx t d i = Inr a))
 \<and> (\<forall>a. analyzeFlat config items ctx t d i = Inr a \<longrightarrow>
        overall_score a = Math_round (of_int (sum_list (map earned_points (scores a)))
                             / of_int (sum_list (map max_points (scores a))) * 100)
      \<and> map max_points (scores a) = [20, 15, 15, 15, 20, 10, 5]
      \<and> sum_list (map max_points (scores a)) = 100
      \<and> 0 \<le> overall_score a \<and> overall_score a \<le> 100
      \<and> grade a = grade_of (overall_score a))"
proof (intro conjI impI allI)
  assume "nonblank items"
  then obtain rs where "run_validators items = Inr rs"
    using run_validators_returns by blast
  then show "\<exists>a. analyzeFlat config items ctx t d i = Inr a"
    by (simp add: analyzeFlat_def)
qed (use analyzeFlat_score in blast)+

theorem flat_score_and_grade_witness:
  "nonblank cats
 \<and> (\<exists>a. analyzeFlat (demo_config False True) cats Document None None None = Inr a
        \<and> map earned_points (scores a) = [20, 15, 12, 15, 20, 7, 5]
        \<and> overall_score a = 94 \<and> grade a = A)"
proof -
  have h: "nonblank cats" by code_simp
  obtain a where a: "analyzeFlat (demo_config False True) cats Document None None None = Inr a"
    using flat_score_and_grade[of cats "demo_config False True" Document None None None] h
    by blast
  have "map_sum id (\<lambda>a. map earned_points (scores a))
          (analyzeFlat (demo_config False True) cats Document None None None)
        = Inr [20, 15, 12, 15, 20, 7, 5]"
    by code_simp
  then have e: "map earned_points (scores a) = [20, 15, 12, 15, 20, 7, 5]"
    by (simp add: a)
  have "map_sum id (\<lambda>a. (overall_score a, grade a))
          (analyzeFlat (demo_config False True) cats Document None None None)
        = Inr (94, A)"
    by code_simp
  then have "overall_score a = 94 \<and> grade a = A"
    by (simp add: a)
  then show ?thesis using h a e by simp
qed

text \<open>
  Claim C2. Each of the seven validators returns a score with
  \<open>0 \<le> earned_points \<le> max_points\<close>: six of them on every list of items, and
  \<open>validateFormatting\<close> whenever it returns, which it does on every list whose items
  have a text that is not blank. Merging keeps the bounds: every score that
  \<open>aggregateRuleScores\<close> builds from scores within bounds is within bounds, and so is
  every score of a sectioned analysis.
\<close>

theorem rule_scores_in_bounds:
  "in_bounds (validateListLength items) \<and> in_bounds (validateHierarchy items)
 \<and> in_bounds (validateLineLength items) \<and> in_bounds (validateSerialPosition items)
 \<and> in_bounds (validateStructure items) \<and> in_bounds (validateFirstWords items)
 \<and> (nonblank items \<longrightarrow> (\<exists>r. validateFormatting items = Inr r \<and> in_bounds r))
 \<and> (\<forall>r. validateFormatting items = Inr r \<longrightarrow> in_bounds r)
 \<and> ((\<forall>r\<in>set allScores. in_bounds r) \<longrightarrow>
        (\<forall>r\<in>set (aggregateRuleScores allScores). in_bounds r))
 \<and> (analyzeSections config sections g t d i = Inr a \<longrightarrow> (\<forall>r\<in>set (scores a). in_bounds r))"
  using validateListLength_bounds validateHierarchy_bounds validateLineLength_bounds
    validateSerialPosition_bounds validateStructure_bounds validateFirstWords_bounds
    validateFormatting_bounds validateFormatting_returns[of items]
    aggregateRuleScores_bounds[of allScores] analyzeSections_bounds[of config sections g t d i a]
  by blast

theorem rule_scores_in_bounds_witness:
  "nonblank cats
 \<and> (\<exists>r. validateFormatting cats = Inr r \<and> in_bounds r)
 \<and> list_all in_bounds three_scores
 \<and> list_all in_bounds (aggregateRuleScores three_scores)
 \<and> (\<exists>a. analyzeSections (demo_config False True) two_sections Document None None None = Inr a
        \<and> list_all in_bounds (scores a))"
proof -
  have h1: "nonblank cats" by code_simp
  have h2: "list_all in_bounds three_scores" by code_simp
  have "\<not> isl (analyzeSections (demo_config False True) two_sections Document None None None)"
    by code_simp
  then obtain a where
    h3: "analyzeSections (demo_config False True) two_sections Document None None None = Inr a"
    by (cases "analyzeSections (demo_config False True) two_sections Document None None None")
       simp_all
  show ?thesis
    using rule_scores_in_bounds[of cats three_scores "demo_config False True" two_sections
            Document None None None a] h1 h2 h3
    by (simp add: list_all_iff)
qed

text \<open>
  Claim C3. Flat and sectioned analysis return on every valid input. Whenever the run
  without strict mode returns, the run with strict mode (nothing else changed) returns
  too; its warnings list is empty; its errors are the errors of the other run followed by
  its warnings, each re-tagged \<open>error\<close>, so that every entry has severity \<open>error\<close>; and
  ignoring the severity field, its errors are the union of the errors and the warnings
  of the run without strict mode.
\<close>

theorem strict_mode_promotion:
  "(nonblank items \<longrightarrow>
      (\<exists>n. analyzeFlat (with_strict False config) items ctx t d i = Inr n))
 \<and> (valid_sections ss \<longrightarrow>
      (\<exists>m. analyzeSections (with_strict False config) ss g t d i = Inr m))
 \<and> (analyzeFlat (with_strict False config) items ctx t d i = Inr n \<longrightarrow>
      (\<exists>s. analyzeFlat (with_strict True config) items ctx t d i = Inr s
         \<and> warnings s = []
         \<and> errors s = errors n @ map promote (warnings n)
         \<and> list_all (\<lambda>e. severity e = Sev_error) (errors s)
         \<and> ignoring_severity ` set (errors s)
             = ignoring_severity ` (set (errors n) \<union> set (warnings n))))
 \<and> (analyzeSections (with_strict False config) ss g t d i = Inr m \<longrightarrow>
      (\<exists>s. analyzeSections (with_strict True config) ss g t d i = Inr s
         \<and> warnings s = []
         \<and> errors s = errors m @ map promote (warnings m)
         \<and> list_all (\<lambda>e. severity e = Sev_error) (errors s)
         \<and> ignoring_severity ` set (errors s)
             = ignoring_severity ` (set (errors m) \<union> set (warnings m))))"
proof (intro conjI impI)
  assume "nonblank items"
  then obtain rs where "run_validators items = Inr rs"
    using run_validators_returns by blast
  then show "\<exists>n. analyzeFlat (with_strict False config) items ctx t d i = Inr n"
    by (simp add: analyzeFlat_def)
next
  assume "valid_sections ss"
  then show "\<exists>m. analyzeSections (with_strict False config) ss g t d i = Inr m"
    by (rule analyzeSections_returns)
next
  assume "analyzeFlat (with_strict False config) items ctx t d i = Inr n"
  from flat_strict[OF this] obtain s where
    s: "analyzeFlat (with_strict True config) items ctx t d i = Inr s" "warnings s = []"
       "errors s = errors n @ map promote (warnings n)"
       "list_all (\<lambda>e. severity e = Sev_error) (errors s)"
    by blast
  show "\<exists>s. analyzeFlat (with_strict True config) items ctx t d i = Inr s
         \<and> warnings s = []
         \<and> errors s = errors n @ map promote (warnings n)
         \<and> list_all (\<lambda>e. severity e = Sev_error) (errors s)
         \<and> ignoring_severity ` set (errors s)
             = ignoring_severity ` (set (errors n) \<union> set (warnings n))"
    using s ignoring_severity_union[OF s(3)] by blast
next
  assume "analyzeSections (with_strict False config) ss g t d i = Inr m"
  from sectioned_strict[OF this] obtain s where
    s: "analyzeSections (with_strict True config) ss g t d i = Inr s" "warnings s = []"
       "errors s = errors m @ map promote (warnings m)"
       "list_all (\<lambda>e. severity e = Sev_error) (errors s)"
    by blast
  show "\<exists>s. analyzeSections (with_strict True config) ss g t d i = Inr s
         \<and> warnings s = []
         \<and> errors s = errors m @ map promote (warnings m)
         \<and> list_all (\<lambda>e. severity e = Sev_error) (errors s)
         \<and> ignoring_severity ` set (errors s)
             = ignoring_severity ` (set (errors m) \<union> set (warnings m))"
    using s ignoring_severity_union[OF s(3)] by blast
qed

theorem strict_mode_promotion_witness:
  "nonblank cats \<and> valid_sections two_sections
 \<and> (\<exists>n s. analyzeFlat (demo_config False True) cats Document None None None = Inr n
          \<and> analyzeFlat (demo_config True True) cats Document None None None = Inr s
          \<and> map severity (errors n) = [] \<and> map severity (warnings n) = [Sev_warning]
          \<and> warnings s = [] \<and> errors s = map promote (warnings n))
 \<and> (\<exists>m s. analyzeSections (demo_config False True) two_sections Document None None None = Inr m
          \<and> analyzeSections (demo_config True True) two_sections Document None None None = Inr s
          \<and> map severity (warnings m) = [Sev_warning, Sev_warning]
          \<and> warnings s = [] \<and> errors s = errors m @ map promote (warnings m))"
proof -
  have c: "with_strict False (demo_config False True) = demo_config False True"
          "with_strict True (demo_config False True) = demo_config True True"
    by (simp_all add: with_strict_def demo_config_def)
  have h1: "nonblank cats" and h2: "valid_sections two_sections" by code_simp+
  note t = strict_mode_promotion[of cats "demo_config False True" Document None None None
             two_sections Document, unfolded c]
  obtain n where n: "analyzeFlat (demo_config False True) cats Document None None None = Inr n"
    using t h1 by blast
  obtain m where
    m: "analyzeSections (demo_config False True) two_sections Document None None None = Inr m"
    using t h2 by blast
  obtain s where s: "analyzeFlat (demo_config True True) cats Document None None None = Inr s"
    "warnings s = []" "errors s = errors n @ map promote (warnings n)"
    using t[of n] n by blast
  obtain s' where
    s': "analyzeSections (demo_config True True) two_sections Document None None None = Inr s'"
    "warnings s' = []" "errors s' = errors m @ map promote (warnings m)"
    using t[of _ m] m by blast
  have "map_sum id (\<lambda>a. (map severity (errors a), map severity (warnings a)))
          (analyzeFlat (demo_config False True) cats Document None None None)
        = Inr ([], [Sev_warning])"
    by code_simp
  then have e1: "map severity (errors n) = [] \<and> map severity (warnings n) = [Sev_warning]"
    by (simp add: n)
  have "map_sum id (\<lambda>a. map severity (warnings a))
          (analyzeSections (demo_config False True) two_sections Document None None None)
        = Inr [Sev_warning, Sev_warning]"
    by code_simp
  then have e2: "map severity (warnings m) = [Sev_warning, Sev_warning]"
    by (simp add: m)
  show ?thesis using h1 h2 n m s s' e1 e2 by auto
qed

text \<open>
  Claim C4. Whenever the flat analysis of a list of items returns, which it does when no
  text is blank, the sectioned analysis of one section with these items returns too, with
  the same \<open>overall_score\<close> (and so the same grade), whatever the configurations, contexts
  and titles of the two runs.
\<close>

theorem single_section_score:
  "(nonblank (bs_items sec) \<longrightarrow>
      (\<exists>b. analyzeFlat config2 (bs_items sec) ctx t' d' i' = Inr b))
 \<and> (analyzeFlat config2 (bs_items sec) ctx t' d' i' = Inr b \<longrightarrow>
      (\<exists>a. analyzeSections config1 [sec] g t d i = Inr a
         \<and> overall_score a = overall_score b \<and> grade a = grade b))"
proof (intro conjI impI)
  assume "nonblank (bs_items sec)"
  then obtain rs where "run_validators (bs_items sec) = Inr rs"
    using run_validators_returns by blast
  then show "\<exists>b. analyzeFlat config2 (bs_items sec) ctx t' d' i' = Inr b"
    by (simp add: analyzeFlat_def)
next
  assume "analyzeFlat config2 (bs_items sec) ctx t' d' i' = Inr b"
  then show "\<exists>a. analyzeSections config1 [sec] g t d i = Inr a
         \<and> overall_score a = overall_score b \<and> grade a = grade b"
    by (rule single_section)
qed

theorem single_section_score_witness:
  "bs_items (hd two_sections) = cats \<and> nonblank cats
 \<and> (\<exists>a b. analyzeFlat (demo_config False True) cats Reference None None None = Inr b
          \<and> analyzeSections (demo_config True False) [hd two_sections] Document None None None
              = Inr a
          \<and> overall_score b = 94 \<and> overall_score a = 94)"
proof -
  have i: "bs_items (hd two_sections) = cats" by (simp add: two_sections_def)
  have h: "nonblank cats" by code_simp
  note t = single_section_score[of "hd two_sections" "demo_config False True" Reference
             None None None _ "demo_config True False" Document None None None, unfolded i]
  obtain b where b: "analyzeFlat (demo_config False True) cats Reference None None None = Inr b"
    using t h by blast
  obtain a where
    a: "analyzeSections (demo_config True False) [hd two_sections] Document None None None = Inr a"
       "overall_score a = overall_score b"
    using t[of b] b by blast
  have "map_sum id overall_score
          (analyzeFlat (demo_config False True) cats Reference None None None) = Inr 94"
    by code_simp
  then have "overall_score b = 94" by (simp add: b)
  then show ?thesis using i h a b by auto
qed

text \<open>
  Claim C5. On every valid sectioned input (at least one section, no blank text) the
  analysis returns, and in its report: the section scores are the scores of the seven
  rules on each section's items, each between 0 and 100; \<open>overall_score\<close> is
  \<open>Math.round\<close> of their arithmetic mean, and the grade follows the thresholds; and
  \<open>scores\<close> holds one merged score for each of the seven rules, in the order of the
  validators, whose maximal and earned points are the rounded means of that rule's points
  over the sections, and whose issues are that rule's issues of all sections in order
  (citations removed when they are disabled). The message of each merged issue is the
  message the validator gave, with the title of its section in square brackets and a space
  put before it; rule, severity, item index and suggestion are those the validator gave.
\<close>

theorem sectioned_aggregation:
  "(valid_sections ss \<longrightarrow> (\<exists>a. analyzeSections config ss g t d i = Inr a))
 \<and> (valid_sections ss \<longrightarrow>
      list_all (\<lambda>sec. run_validators (bs_items sec) = Inr (rules_of (bs_items sec))) ss)
 \<and> (valid_sections ss \<and> analyzeSections config ss g t d i = Inr a \<longrightarrow>
      (\<exists>scs. section_scores a = Some scs
          \<and> map section_score scs = map (\<lambda>sec. score_of (rules_of (bs_items sec))) ss
          \<and> list_all (\<lambda>s. 0 \<le> section_score s \<and> section_score s \<le> 100) scs
          \<and> overall_score a
              = Math_round (of_int (sum_list (map section_score scs)) / of_nat (length scs)))
       \<and> grade a = grade_of (overall_score a)
       \<and> scores a = (if enableResearchCitations (validation config)
                      then map (merged_rule ss) [0..<7]
                      else map without_citations (map (merged_rule ss) [0..<7]))
       \<and> (\<forall>k<7.
             map message (issues (scores a ! k))
               = concat (map (\<lambda>sec. map (\<lambda>i. ''['' @ bs_title sec @ ''] '' @ message i)
                                        (issues (rules_of (bs_items sec) ! k))) ss)
           \<and> map (\<lambda>i. (rule i, severity i, item_index i, suggestion i)) (issues (scores a ! k))
               = concat (map (\<lambda>sec. map (\<lambda>i. (rule i, severity i, item_index i, suggestion i))
                                        (issues (rules_of (bs_items sec) ! k))) ss)))"
proof (intro conjI impI allI)
  assume "valid_sections ss"
  then show "\<exists>a. analyzeSections config ss g t d i = Inr a"
    by (rule analyzeSections_returns)
next
  assume "valid_sections ss"
  then show "list_all (\<lambda>sec. run_validators (bs_items sec) = Inr (rules_of (bs_items sec))) ss"
    by (simp add: valid_sections_def list_all_iff run_validators_rules_of)
next
  assume v: "valid_sections ss \<and> analyzeSections config ss g t d i = Inr a"
  note s = sectioned_scores[of ss config g t d i a]
  show "\<exists>scs. section_scores a = Some scs
          \<and> map section_score scs = map (\<lambda>sec. score_of (rules_of (bs_items sec))) ss
          \<and> list_all (\<lambda>s. 0 \<le> section_score s \<and> section_score s \<le> 100) scs
          \<and> overall_score a
              = Math_round (of_int (sum_list (map section_score scs)) / of_nat (length scs))"
    using s v by blast
  show "grade a = grade_of (overall_score a)" using s v by blast
  show "scores a = (if enableResearchCitations (validation config)
                      then map (merged_rule ss) [0..<7]
                      else map without_citations (map (merged_rule ss) [0..<7]))"
    using s v by blast
next
  fix k :: nat
  assume v: "valid_sections ss \<and> analyzeSections config ss g t d i = Inr a" and k: "k < 7"
  note m = sectioned_messages[of ss config g t d i a k]
  show "map message (issues (scores a ! k))
          = concat (map (\<lambda>sec. map (\<lambda>i. ''['' @ bs_title sec @ ''] '' @ message i)
                                   (issues (rules_of (bs_items sec) ! k))) ss)"
    using m v k by blast
  show "map (\<lambda>i. (rule i, severity i, item_index i, suggestion i)) (issues (scores a ! k))
          = concat (map (\<lambda>sec. map (\<lambda>i. (rule i, severity i, item_index i, suggestion i))
                                   (issues (rules_of (bs_items sec) ! k))) ss)"
    using m v k by blast
qed

theorem sectioned_aggregation_witness:
  "valid_sections two_sections
 \<and> map bs_title two_sections = [''Cats'', ''Pets'']
 \<and> (\<exists>a. analyzeSections (demo_config False True) two_sections Document None None None = Inr a
        \<and> map_option (map section_score) (section_scores a) = Some [94, 87]
        \<and> overall_score a = 91
        \<and> scores a = map (merged_rule two_sections) [0..<7]
        \<and> map max_points (scores a) = [20, 15, 15, 15, 20, 10, 5]
        \<and> map earned_points (scores a) = [18, 15, 13, 15, 18, 9, 4]
        \<and> map message (issues (scores a ! 0))
            = [''[Pets] List has only 2 item(s), below minimum of 3'']
        \<and> map message (issues (scores a ! 2))
            = [''[Cats] Item 1 is short (9 chars), may appear sparse'',
               ''[Cats] Item 2 is short (9 chars), may appear sparse'',
               ''[Cats] Item 3 is short (9 chars), may appear sparse'',
               ''[Pets] Item 1 is short (9 chars), may appear sparse'',
               ''[Pets] Item 2 is short (8 chars), may appear sparse''])
 \<and> map message (issues (rules_of pets ! 0)) = [''List has only 2 item(s), below minimum of 3'']
 \<and> map message (issues (rules_of cats ! 0)) = []"
proof -
  have h: "valid_sections two_sections" by code_simp
  have ti: "map bs_title two_sections = [''Cats'', ''Pets'']
          \<and> map bs_items two_sections = [cats, pets]"
    by (simp add: two_sections_def)
  note t = sectioned_aggregation[of two_sections "demo_config False True" Document
             None None None]
  obtain a where
    a: "analyzeSections (demo_config False True) two_sections Document None None None = Inr a"
    using t h by blast
  have s: "scores a = map (merged_rule two_sections) [0..<7]"
    using t[of a] h a by (simp add: demo_config_def)
  have r: "map message (issues (rules_of pets ! 0))
             = [''List has only 2 item(s), below minimum of 3'']
         \<and> map message (issues (rules_of cats ! 0)) = []"
    by code_simp
  have al: "\<forall>k<7. map message (issues (scores a ! k))
              = concat (map (\<lambda>sec. map (\<lambda>i. ''['' @ bs_title sec @ ''] '' @ message i)
                                       (issues (rules_of (bs_items sec) ! k))) two_sections)"
    using t[of a] h a by blast
  have k0: "map message (issues (scores a ! 0))
              = concat (map (\<lambda>sec. map (\<lambda>i. ''['' @ bs_title sec @ ''] '' @ message i)
                                       (issues (rules_of (bs_items sec) ! 0))) two_sections)"
    using al[rule_format, of 0] by simp
  have m0: "map message (issues (scores a ! 0))
              = [''[Pets] List has only 2 item(s), below minimum of 3'']"
    unfolding k0 by code_simp
  have "map_sum id (\<lambda>a. (map_option (map section_score) (section_scores a), overall_score a,
                          map max_points (scores a), map earned_points (scores a),
                          map message (issues (scores a ! 2))))
          (analyzeSections (demo_config False True) two_sections Document None None None)
        = Inr (Some [94, 87], 91, [20, 15, 15, 15, 20, 10, 5], [18, 15, 13, 15, 18, 9, 4],
               [''[Cats] Item 1 is short (9 chars), may appear sparse'',
                ''[Cats] Item 2 is short (9 chars), may appear sparse'',
                ''[Cats] Item 3 is short (9 chars), may appear sparse'',
                ''[Pets] Item 1 is short (9 chars), may appear sparse'',
                ''[Pets] Item 2 is short (8 chars), may appear sparse''])"
    by code_simp
  then show ?thesis using h ti a s r m0 by simp
qed




section \<open>Serial position\<close>

lemma with_index_map: "with_index xs = map (\<lambda>i. (xs ! i, i)) [0..<length xs]"
  unfolding with_index_def by (rule nth_equalityI) simp_all

lemma serial_step_points:
  "snd (fold (serial_step n) hs (iss, p)) = p - 5 * int (length (filter (in_valley n) hs))"
  by (induction hs arbitrary: iss p)
     (auto simp: in_valley_def Let_def threshold_defs)

lemma serial_step_indices:
  "map item_index (fst (fold (serial_step n) hs (iss, p))) =
     map item_index iss @ map (\<lambda>q. Some (snd q)) (filter (in_valley n) hs)"
  by (induction hs arbitrary: iss p)
     (auto simp: in_valley_def Let_def threshold_defs)

lemma serial_step_severity:
  "map severity (fst (fold (serial_step n) hs (iss, p))) =
     map severity iss @ replicate (length (filter (in_valley n) hs)) Sev_warning"
  by (induction hs arbitrary: iss p)
     (auto simp: in_valley_def Let_def threshold_defs replicate_app_Cons_same)

lemma high_valley:
  "filter (in_valley (length xs))
     (filter (\<lambda>(item, index). importance item = Some High) (with_index xs))
   = map (\<lambda>i. (xs ! i, i)) (recall_valley xs)"
  unfolding with_index_map recall_valley_def filter_map filter_filter
  by (rule arg_cong[where f="map _"], rule filter_cong) (auto simp: in_valley_def o_def)

lemma serial_high:
  assumes "length xs > 3" "\<exists>item\<in>set xs. importance item = Some High"
  shows "max_points (validateSerialPosition xs) = 15
       \<and> earned_points (validateSerialPosition xs)
           = max 0 (15 - 5 * int (length (recall_valley xs)))
       \<and> map item_index (issues (validateSerialPosition xs)) = map Some (recall_valley xs)
       \<and> map severity (issues (validateSerialPosition xs))
           = replicate (length (recall_valley xs)) Sev_warning"
proof -
  have h: "list_ex (\<lambda>item. importance item \<noteq> None) xs"
    using assms(2) by (auto simp: list_ex_iff)
  let ?hs = "filter (\<lambda>(item, index). importance item = Some High) (with_index xs)"
  obtain iss p where f: "fold (serial_step (length xs)) ?hs ([], SERIAL_POSITION_POINTS) = (iss, p)"
    by (cases "fold (serial_step (length xs)) ?hs ([], SERIAL_POSITION_POINTS)")
  have r: "validateSerialPosition xs =
             \<lparr>score_rule = ''SERIAL_POSITION'', max_points = SERIAL_POSITION_POINTS,
              earned_points = max 0 p, issues = iss\<rparr>"
    using h assms(1) f by (simp add: validateSerialPosition_def Let_def)
  have p: "p = 15 - 5 * int (length (recall_valley xs))"
    using serial_step_points[of "length xs" ?hs "[]" SERIAL_POSITION_POINTS] f
    by (simp add: high_valley points_defs del: filter_filter)
  have i: "map item_index iss = map Some (recall_valley xs)"
    using serial_step_indices[of "length xs" ?hs "[]" SERIAL_POSITION_POINTS] f
    by (simp add: high_valley o_def del: filter_filter)
  have s: "map severity iss = replicate (length (recall_valley xs)) Sev_warning"
    using serial_step_severity[of "length xs" ?hs "[]" SERIAL_POSITION_POINTS] f
    by (simp add: high_valley del: filter_filter)
  show ?thesis by (simp add: r p i s points_defs)
qed

lemma serial_untagged:
  assumes "\<forall>item\<in>set zs. importance item = None" "length zs > 4"
  shows "max_points (validateSerialPosition zs) = 15
       \<and> earned_points (validateSerialPosition zs) = 15
       \<and> map severity (issues (validateSerialPosition zs)) = [Sev_suggestion]"
proof -
  have h: "\<not> list_ex (\<lambda>item. importance item \<noteq> None) zs"
    using assms(1) by (auto simp: list_ex_iff)
  show ?thesis
    using h assms(2) by (simp add: validateSerialPosition_def Let_def points_defs)
qed

lemma upt_5: "[0..<5] = [0, 1, 2, 3, 4::nat]"
  by (simp add: upt_rec)

lemma upt_6: "[0..<6] = [0, 1, 2, 3, 4, 5::nat]"
  by (simp add: upt_rec)

lemma valley_one:
  assumes "length ys = 5" "\<forall>i<5. (importance (ys ! i) = Some High) = (i = 2)"
  shows "recall_valley ys = [2]"
  using assms by (simp add: recall_valley_def upt_5)

text \<open>
  Claim C7. On a list of more than 3 items of which one is tagged \<open>high\<close>,
  \<open>validateSerialPosition\<close> emits one warning for each high-importance item whose index
  is neither below 2 nor at least length - 1, in the order of the items, and earns 15
  minus 5 for each of them, floored at 0. On a list of 5 items whose only high-importance
  item is at index 2 it earns 10 of 15 with one warning, on that index. On a list of more
  than 4 items none of which carries an importance tag it emits exactly one issue, a
  suggestion, and earns all 15 points.
\<close>

theorem validateSerialPosition_rule:
  "(length xs > 3 \<and> (\<exists>item\<in>set xs. importance item = Some High) \<longrightarrow>
      max_points (validateSerialPosition xs) = 15
    \<and> earned_points (validateSerialPosition xs)
        = max 0 (15 - 5 * int (length (recall_valley xs)))
    \<and> map item_index (issues (validateSerialPosition xs)) = map Some (recall_valley xs)
    \<and> map severity (issues (validateSerialPosition xs))
        = replicate (length (recall_valley xs)) Sev_warning)
 \<and> (length ys = 5 \<and> (\<forall>i<5. (importance (ys ! i) = Some High) = (i = 2)) \<longrightarrow>
      max_points (validateSerialPosition ys) = 15
    \<and> earned_points (validateSerialPosition ys) = 10
    \<and> map item_index (issues (validateSerialPosition ys)) = [Some 2]
    \<and> map severity (issues (validateSerialPosition ys)) = [Sev_warning])
 \<and> ((\<forall>item\<in>set zs. importance item = None) \<and> length zs > 4 \<longrightarrow>
      max_points (validateSerialPosition zs) = 15
    \<and> earned_points (validateSerialPosition zs) = 15
    \<and> map severity (issues (validateSerialPosition zs)) = [Sev_suggestion])"
proof (intro conjI impI)
  assume a: "length ys = 5 \<and> (\<forall>i<5. (importance (ys ! i) = Some High) = (i = 2))"
  then have v: "recall_valley ys = [2]" by (simp add: valley_one)
  have l: "length ys > 3" using a by simp
  have "ys ! 2 \<in> set ys" using a by simp
  moreover have "importance (ys ! 2) = Some High" using a by simp
  ultimately have e: "\<exists>item\<in>set ys. importance item = Some High" by blast
  note s = serial_high[OF l e, unfolded v]
  show "max_points (validateSerialPosition ys) = 15" using s by simp
  show "earned_points (validateSerialPosition ys) = 10" using s by simp
  show "map item_index (issues (validateSerialPosition ys)) = [Some 2]" using s by simp
  show "map severity (issues (validateSerialPosition ys)) = [Sev_warning]" using s by simp
qed (simp_all add: serial_high serial_untagged)

theorem validateSerialPosition_rule_witness:
  "length serial_ex1 = 6
 \<and> map importance serial_ex1 = [Some High, None, Some High, Some High, Some Low, Some High]
 \<and> earned_points (validateSerialPosition serial_ex1) = 5
 \<and> map item_index (issues (validateSerialPosition serial_ex1)) = [Some 2, Some 3]
 \<and> map severity (issues (validateSerialPosition serial_ex1)) = [Sev_warning, Sev_warning]
 \<and> map importance serial_ex2 = [None, None, Some High, None, None]
 \<and> max_points (validateSerialPosition serial_ex2) = 15
 \<and> earned_points (validateSerialPosition serial_ex2) = 10
 \<and> map item_index (issues (validateSerialPosition serial_ex2)) = [Some 2]
 \<and> map severity (issues (validateSerialPosition serial_ex2)) = [Sev_warning]
 \<and> map importance serial_ex3 = [None, None, None, None, None]
 \<and> earned_points (validateSerialPosition serial_ex3) = 15
 \<and> map severity (issues (validateSerialPosition serial_ex3)) = [Sev_suggestion]"
proof -
  have h1: "length serial_ex1 > 3 \<and> (\<exists>item\<in>set serial_ex1. importance item = Some High)"
    by (simp add: serial_ex1_def)
  have h2: "length serial_ex2 = 5
            \<and> (\<forall>i<5. (importance (serial_ex2 ! i) = Some High) = (i = 2))"
    by (simp add: serial_ex2_def numeral_eq_Suc All_less_Suc)
  have h3: "(\<forall>item\<in>set serial_ex3. importance item = None) \<and> length serial_ex3 > 4"
    by (simp add: serial_ex3_def)
  have v: "recall_valley serial_ex1 = [2, 3]"
    by (simp add: recall_valley_def serial_ex1_def upt_6)
  have m: "length serial_ex1 = 6
     \<and> map importance serial_ex1 = [Some High, None, Some High, Some High, Some Low, Some High]
     \<and> map importance serial_ex2 = [None, None, Some High, None, None]
     \<and> map importance serial_ex3 = [None, None, None, None, None]"
    by (simp add: serial_ex1_def serial_ex2_def serial_ex3_def)
  show ?thesis
    using validateSerialPosition_rule[of serial_ex1 serial_ex2 serial_ex3] h1 h2 h3 m
    by (simp add: v)
qed

section \<open>The two classifiers\<close>

lemma split_from_nonempty: "split_from inrun cur s \<noteq> []"
  by (induction s arbitrary: inrun cur) simp_all

lemma first_word_defined: "\<exists>w. first_word text = Some w"
  using split_from_nonempty[of False "[]" "trim text"]
  by (cases "split_ws (trim text)") (simp_all add: first_word_def split_ws_def)

lemma looks_like_sentence_copulas:
  "looks_like_sentence text = (\<exists>c\<in>set copulas. str_includes (toLowerCase text) c)"
  by (simp add: looks_like_sentence_def copulas_def Let_def)

text \<open>
  The classifier of the sections-capable engine is total and applies its checks in the
  order of the claim: imperative verb, gerund that is not a listed \<open>-ing\<close> noun,
  determiner, copula or auxiliary inside the text, else unknown.
\<close>

lemma detectGrammarPattern_order:
  assumes "first_word text = Some w"
  shows "detectGrammarPattern text =
           (if w \<in> set IMPERATIVE_VERBS then VerbImperative
            else if endsWith w ''ing'' \<and> length w > 4 \<and> w \<notin> set nonGerunds then VerbGerund
            else if w \<in> set determiners then NounPhrase
            else if (\<exists>c\<in>set copulas. str_includes (toLowerCase text) c) then Sentence
            else Unknown)"
  using assms by (simp add: detectGrammarPattern_def looks_like_sentence_copulas)

lemma detectGrammarPattern_flat_differs:
  assumes "first_word text = Some w"
  shows "detectGrammarPattern_flat text \<noteq> detectGrammarPattern text \<longleftrightarrow>
           w \<notin> set IMPERATIVE_VERBS \<and> endsWith w ''ing'' \<and> length w > 4 \<and> w \<in> set nonGerunds"
proof -
  have d: "w \<in> set nonGerunds \<Longrightarrow> w \<notin> set determiners"
    by (auto simp: nonGerunds_def determiners_def)
  show ?thesis
    using assms d
    by (auto simp: detectGrammarPattern_def detectGrammarPattern_flat_def)
qed

text \<open>
  Claim C8. The claim holds of the classifier of the sections-capable engine
  (\<open>detectGrammarPattern_order\<close>). The classifier of the flat-only engine has no list of
  excluded \<open>-ing\<close> nouns: on the text \<open>String theory\<close>, whose first word \<open>string\<close> is one
  of them, it answers \<open>verb-gerund\<close>, where the claim and the other engine answer
  \<open>unknown\<close>.
\<close>

theorem flat_classifier_gerund_nouns:
  "first_word ''String theory'' = Some ''string''
 \<and> ''string'' \<in> set nonGerunds
 \<and> detectGrammarPattern ''String theory'' = Unknown
 \<and> detectGrammarPattern_flat ''String theory'' = VerbGerund"
  by code_simp

text \<open>
  Claim C9. The list of top improvements, in both engines, is \<open>spec_top\<close>: keep the issues
  that carry a suggestion, sort them stably by severity rank, remove every suggestion text
  already seen, keep the first 3. It has at most 3 entries, all distinct. No suggestion is
  outranked by a less severe one: each listed text is carried by an issue at least as
  severe as any issue whose suggestion is left out, and as any issue that carries a text
  listed after it.
\<close>

theorem top_improvements_selection:
  "list_items (getTopImprovements iss score) = spec_top iss
 \<and> getTopImprovements_flat iss = spec_top iss
 \<and> length (spec_top iss) \<le> 3
 \<and> distinct (spec_top iss)
 \<and> (\<forall>t\<in>set (spec_top iss). \<forall>k\<in>set iss.
       truthy_opt (suggestion k) \<and> the (suggestion k) \<notin> set (spec_top iss) \<longrightarrow>
       (\<exists>j\<in>set iss. suggestion j = Some t \<and> rank j \<le> rank k))
 \<and> (\<forall>a b. a < b \<and> b < length (spec_top iss) \<longrightarrow>
       (\<forall>k\<in>set iss. suggestion k = Some (spec_top iss ! b) \<longrightarrow>
          (\<exists>j\<in>set iss. suggestion j = Some (spec_top iss ! a) \<and> rank j \<le> rank k)))"
proof (intro conjI)
  show "list_items (getTopImprovements iss score) = spec_top iss"
    by (simp add: getTopImprovements_def Let_def top_suggestions_spec)
  show "getTopImprovements_flat iss = spec_top iss"
    by (simp add: getTopImprovements_flat_def top_suggestions_spec)
  show "length (spec_top iss) \<le> 3" by (rule length_spec_top)
  show "distinct (spec_top iss)" by (rule distinct_spec_top)
  show "\<forall>t\<in>set (spec_top iss). \<forall>k\<in>set iss.
       truthy_opt (suggestion k) \<and> the (suggestion k) \<notin> set (spec_top iss) \<longrightarrow>
       (\<exists>j\<in>set iss. suggestion j = Some t \<and> rank j \<le> rank k)"
    using spec_top_outranks by blast
  show "\<forall>a b. a < b \<and> b < length (spec_top iss) \<longrightarrow>
       (\<forall>k\<in>set iss. suggestion k = Some (spec_top iss ! b) \<longrightarrow>
          (\<exists>j\<in>set iss. suggestion j = Some (spec_top iss ! a) \<and> rank j \<le> rank k))"
    using spec_top_ordered by blast
qed

theorem top_improvements_selection_witness:
  "map severity demo_issues
     = [Sev_warning, Sev_suggestion, Sev_error, Sev_error, Sev_warning, Sev_warning]
 \<and> map suggestion demo_issues
     = [Some ''Shorten'', Some ''Capitalize'', Some ''Flatten'', Some ''Shorten'',
        Some ''Rewrite'', None]
 \<and> list_items (getTopImprovements demo_issues 50) = [''Flatten'', ''Shorten'', ''Rewrite'']
 \<and> getTopImprovements_flat demo_issues = [''Flatten'', ''Shorten'', ''Rewrite'']
 \<and> (\<exists>j\<in>set demo_issues. suggestion j = Some ''Rewrite'' \<and> rank j \<le> rank (demo_issues ! 1))"
proof -
  have e: "spec_top demo_issues = [''Flatten'', ''Shorten'', ''Rewrite'']" by code_simp
  have m: "map severity demo_issues
             = [Sev_warning, Sev_suggestion, Sev_error, Sev_error, Sev_warning, Sev_warning]
         \<and> map suggestion demo_issues
             = [Some ''Shorten'', Some ''Capitalize'', Some ''Flatten'', Some ''Shorten'',
                Some ''Rewrite'', None]"
    by (simp add: demo_issues_def)
  have k: "demo_issues ! 1 \<in> set demo_issues" by (simp add: demo_issues_def)
  have s: "truthy_opt (suggestion (demo_issues ! 1))
           \<and> the (suggestion (demo_issues ! 1)) \<notin> set (spec_top demo_issues)"
    unfolding e by (simp add: demo_issues_def truthy_opt_def)
  have t: "''Rewrite'' \<in> set (spec_top demo_issues)" unfolding e by simp
  have "\<exists>j\<in>set demo_issues. suggestion j = Some ''Rewrite'' \<and> rank j \<le> rank (demo_issues ! 1)"
    using top_improvements_selection[of demo_issues 50] t k s by blast
  then show ?thesis
    using top_improvements_selection[of demo_issues 50] e m by simp
qed

text \<open>
  Claim C10, as the engine has it. Whenever the run without strict mode returns, the run
  with strict mode (the citation toggle and everything else unchanged) returns a report
  with the same \<open>scores\<close>, in which every issue keeps its severity, and the same
  \<open>top_improvements\<close>. In sectioned mode the two reports differ in \<open>errors\<close> and
  \<open>warnings\<close> only. In flat mode they differ in \<open>errors\<close>, \<open>warnings\<close> and \<open>summary\<close>
  only: the summary is computed from the sizes of the two buckets after the promotion.
\<close>

theorem strict_mode_frame:
  "(analyzeFlat (with_strict False config) items ctx t d i = Inr n \<longrightarrow>
      (\<exists>s. analyzeFlat (with_strict True config) items ctx t d i = Inr s
         \<and> scores s = scores n \<and> top_improvements s = top_improvements n
         \<and> s = n\<lparr>errors := errors s, warnings := warnings s, summary := summary s\<rparr>
         \<and> summary s = generateSummary (overall_score n)
                          (length (errors n) + length (warnings n)) 0))
 \<and> (analyzeSections (with_strict False config) ss g t d i = Inr m \<longrightarrow>
      (\<exists>s. analyzeSections (with_strict True config) ss g t d i = Inr s
         \<and> scores s = scores m \<and> top_improvements s = top_improvements m
         \<and> s = m\<lparr>errors := errors s, warnings := warnings s\<rparr>))"
proof (intro conjI impI)
  assume "analyzeFlat (with_strict False config) items ctx t d i = Inr n"
  from flat_strict[OF this]
  show "\<exists>s. analyzeFlat (with_strict True config) items ctx t d i = Inr s
         \<and> scores s = scores n \<and> top_improvements s = top_improvements n
         \<and> s = n\<lparr>errors := errors s, warnings := warnings s, summary := summary s\<rparr>
         \<and> summary s = generateSummary (overall_score n)
                          (length (errors n) + length (warnings n)) 0"
    by blast
next
  assume "analyzeSections (with_strict False config) ss g t d i = Inr m"
  from sectioned_strict[OF this]
  show "\<exists>s. analyzeSections (with_strict True config) ss g t d i = Inr s
         \<and> scores s = scores m \<and> top_improvements s = top_improvements m
         \<and> s = m\<lparr>errors := errors s, warnings := warnings s\<rparr>"
    by blast
qed

theorem strict_mode_frame_witness:
  "(\<exists>n s. analyzeFlat (demo_config False True) cats Document None None None = Inr n
          \<and> analyzeFlat (demo_config True True) cats Document None None None = Inr s
          \<and> scores s = scores n \<and> top_improvements s = top_improvements n)
 \<and> (\<exists>m s. analyzeSections (demo_config False True) two_sections Document None None None = Inr m
          \<and> analyzeSections (demo_config True True) two_sections Document None None None = Inr s
          \<and> scores s = scores m \<and> summary s = summary m
          \<and> top_improvements s = top_improvements m)"
proof -
  have c: "with_strict False (demo_config False True) = demo_config False True"
          "with_strict True (demo_config False True) = demo_config True True"
    by (simp_all add: with_strict_def demo_config_def)
  note t = strict_mode_frame[of "demo_config False True" cats Document None None None _
             two_sections Document, unfolded c]
  have "\<not> isl (analyzeFlat (demo_config False True) cats Document None None None)"
    by code_simp
  then obtain n where
    n: "analyzeFlat (demo_config False True) cats Document None None None = Inr n"
    by (cases "analyzeFlat (demo_config False True) cats Document None None None") simp_all
  have "\<not> isl (analyzeSections (demo_config False True) two_sections Document None None None)"
    by code_simp
  then obtain m where
    m: "analyzeSections (demo_config False True) two_sections Document None None None = Inr m"
    by (cases "analyzeSections (demo_config False True) two_sections Document None None None")
       simp_all
  obtain s where s: "analyzeFlat (demo_config True True) cats Document None None None = Inr s"
    "scores s = scores n" "top_improvements s = top_improvements n"
    using t[of n] n by blast
  obtain s' where
    s': "analyzeSections (demo_config True True) two_sections Document None None None = Inr s'"
    "scores s' = scores m" "top_improvements s' = top_improvements m"
    "s' = m\<lparr>errors := errors s', warnings := warnings s'\<rparr>"
    using t[of _ m] m by blast
  have "summary s' = summary m" by (subst s'(4)) simp
  then show ?thesis using n m s s' by blast
qed

text \<open>
  As stated, the claim fails in flat mode: on the three items \<open>Use cats.\<close>, \<open>Use dogs.\<close>,
  \<open>Use cats.\<close> the summary of the report changes with strict mode.
\<close>

theorem strict_mode_frame_counterexample:
  "map_sum id summary (analyzeFlat (demo_config False True) cats Document None None None)
     = Inr ''Excellent bullet list following evidence-based best practices.''
 \<and> map_sum id summary (analyzeFlat (demo_config True True) cats Document None None None)
     = Inr ''Adequate bullet list. 0 issue(s) may impact effectiveness.''"
  by code_simp

end
